theory Spec2Isabelle
  imports Main "HOL-Library.Monad_Syntax" "HOL-Library.Sublist" "HOL-Library.AList"
begin

section \<open>Text, character classes and backtracking patterns\<close>

text \<open>
  The Spanner driver works on JavaScript strings with regular expressions. A string is
  modelled as a \<open>string\<close> whose characters are the code units below 256 (the ASCII and
  Latin-1 range, where DDL text and SQL text live). A regular expression is modelled as a
  backtracking matcher: for the text at the cursor it returns every way the pattern can
  match there, in the order in which the JavaScript engine tries them, each as the
  captured value together with the text left after the match. The first element of that
  list is the match the engine reports.
\<close>

type_synonym 'a rx = "string \<Rightarrow> ('a \<times> string) list"

definition is_digit :: "char \<Rightarrow> bool" where
  \<comment> \<open>the class \<open>\d\<close>\<close>
  "is_digit c = (let n = (of_char c :: nat) in 48 \<le> n \<and> n \<le> 57)"

definition is_word :: "char \<Rightarrow> bool" where
  \<comment> \<open>the class \<open>\w\<close>: letters, digits and the underscore\<close>
  "is_word c = (let n = (of_char c :: nat) in
     (48 \<le> n \<and> n \<le> 57) \<or> (65 \<le> n \<and> n \<le> 90) \<or> n = 95 \<or> (97 \<le> n \<and> n \<le> 122))"

definition is_space :: "char \<Rightarrow> bool" where
  \<comment> \<open>the class \<open>\s\<close> below 256: tab, line feed, vertical tab, form feed,
      carriage return, space and the no-break space\<close>
  "is_space c = (let n = (of_char c :: nat) in (9 \<le> n \<and> n \<le> 13) \<or> n = 32 \<or> n = 160)"

definition is_quote :: "char \<Rightarrow> bool" where
  "is_quote c = (c = CHR 0x27)"

definition is_dot_char :: "char \<Rightarrow> bool" where
  \<comment> \<open>the class \<open>.\<close>: anything but a line terminator\<close>
  "is_dot_char c = (c \<noteq> CHR 0x0A \<and> c \<noteq> CHR 0x0D)"

definition toLowerCase_char :: "char \<Rightarrow> char" where
  "toLowerCase_char c = (let n = (of_char c :: nat) in
     if (65 \<le> n \<and> n \<le> 90) \<or> (192 \<le> n \<and> n \<le> 222 \<and> n \<noteq> 215) then char_of (n + 32) else c)"

definition toLowerCase :: "string \<Rightarrow> string" where
  "toLowerCase s = map toLowerCase_char s"

text \<open>A literal piece of pattern text.\<close>

definition lit :: "string \<Rightarrow> string rx" where
  "lit w s = (if prefix w s then [(w, drop (length w) s)] else [])"

text \<open>
  \<open>many P\<close> is the greedy \<open>[P]*\<close>: the longest run first, then shorter ones on
  backtracking. \<open>many1 P\<close> is \<open>[P]+\<close>. \<open>few P\<close> and \<open>few1 P\<close> are the lazy
  \<open>[P]*?\<close> and \<open>[P]+?\<close>: the shortest run first. \<open>opt P\<close> is \<open>[P]?\<close>.
\<close>

fun many :: "(char \<Rightarrow> bool) \<Rightarrow> string rx" where
  "many P [] = [([], [])]"
| "many P (c # cs) =
     (if P c then map (\<lambda>(w, r). (c # w, r)) (many P cs) @ [([], c # cs)] else [([], c # cs)])"

definition many1 :: "(char \<Rightarrow> bool) \<Rightarrow> string rx" where
  "many1 P s = filter (\<lambda>(w, r). w \<noteq> []) (many P s)"

fun few :: "(char \<Rightarrow> bool) \<Rightarrow> string rx" where
  "few P [] = [([], [])]"
| "few P (c # cs) =
     (if P c then ([], c # cs) # map (\<lambda>(w, r). (c # w, r)) (few P cs) else [([], c # cs)])"

definition few1 :: "(char \<Rightarrow> bool) \<Rightarrow> string rx" where
  "few1 P s = filter (\<lambda>(w, r). w \<noteq> []) (few P s)"

definition opt :: "(char \<Rightarrow> bool) \<Rightarrow> string rx" where
  "opt P s = (case s of c # cs \<Rightarrow> if P c then [([c], cs), ([], s)] else [([], s)] | [] \<Rightarrow> [([], s)])"

definition word_boundary :: "char \<Rightarrow> string \<Rightarrow> bool" where
  \<comment> \<open>\<open>\b\<close> after the character \<open>prev\<close>, with \<open>s\<close> the text that follows\<close>
  "word_boundary prev s = (is_word prev \<noteq> (case s of [] \<Rightarrow> False | c # _ \<Rightarrow> is_word c))"

text \<open>
  \<open>str.match(re)\<close> without the global flag: the leftmost position where the pattern
  matches, and there the first match in backtracking order.
\<close>

fun search :: "'a rx \<Rightarrow> string \<Rightarrow> 'a option" where
  "search re [] = (case re [] of (a, _) # _ \<Rightarrow> Some a | [] \<Rightarrow> None)"
| "search re (c # cs) = (case re (c # cs) of (a, _) # _ \<Rightarrow> Some a | [] \<Rightarrow> search re cs)"

text \<open>
  \<open>str.match(re)\<close> with the global flag: the texts of all matches, left to right,
  without overlap. After an empty match the engine moves on by one character.
\<close>

fun match_all :: "string rx \<Rightarrow> string \<Rightarrow> string list" where
  "match_all re [] = (case re [] of (m, _) # _ \<Rightarrow> [m] | [] \<Rightarrow> [])"
| "match_all re (c # cs) =
     (case re (c # cs) of
        (m, _) # _ \<Rightarrow> m # match_all re (drop (length m - 1) cs)
      | [] \<Rightarrow> match_all re cs)"

text \<open>
  \<open>str.replace(re, callback)\<close> with the global flag. The callback receives the matched
  text; it may have effects, so it takes and returns a state. The flag given to the
  pattern says whether the cursor is at the start of the input (for \<open>^\<close>).
\<close>

fun replace_from :: "bool \<Rightarrow> (bool \<Rightarrow> string rx) \<Rightarrow> (string \<Rightarrow> 'st \<Rightarrow> string \<times> 'st) \<Rightarrow>
    string \<Rightarrow> 'st \<Rightarrow> string \<times> 'st" where
  "replace_from b re f [] st = (case re b [] of (m, _) # _ \<Rightarrow> f m st | [] \<Rightarrow> ([], st))"
| "replace_from b re f (c # cs) st =
     (case re b (c # cs) of
        (m, _) # _ \<Rightarrow>
          (let (rep, st1) = f m st;
               (out, st2) = (if m = [] then (let (o', s') = replace_from False re f cs st1 in (c # o', s'))
                             else replace_from False re f (drop (length m - 1) cs) st1)
           in (rep @ out, st2))
      | [] \<Rightarrow> (let (out, st1) = replace_from False re f cs st in (c # out, st1)))"

definition replace_all :: "(bool \<Rightarrow> string rx) \<Rightarrow> (string \<Rightarrow> 'st \<Rightarrow> string \<times> 'st) \<Rightarrow>
    string \<Rightarrow> 'st \<Rightarrow> string \<times> 'st" where
  "replace_all re f s st = replace_from True re f s st"

text \<open>A JavaScript value that may be \<open>undefined\<close> or \<open>null\<close>.\<close>

datatype 'a js = Undefined | Null | Val 'a

section \<open>Default-value comparison\<close>

text \<open>
  \<open>/^'+|'+$/g\<close>: a run of quotes at the start of the input, or a run of quotes that
  reaches its end.
\<close>

definition quotes_rx :: "bool \<Rightarrow> string rx" where
  "quotes_rx at_start s =
     (if at_start then many1 is_quote s else []) @
     (do { (q, s1) \<leftarrow> many1 is_quote s; (if s1 = [] then [(q, s1)] else []) })"

definition strip_quotes :: "string \<Rightarrow> string" where
  \<comment> \<open>\<open>s.replace(/^'+|'+$/g, "")\<close>\<close>
  "strip_quotes s = fst (replace_all quotes_rx (\<lambda>m st. ([], st)) s ())"

fun compareDefaultValues :: "string js \<Rightarrow> string js \<Rightarrow> bool" where
  "compareDefaultValues (Val columnMetadataValue) (Val databaseValue) =
     (strip_quotes columnMetadataValue = strip_quotes databaseValue)"
| "compareDefaultValues columnMetadataValue databaseValue = (columnMetadataValue = databaseValue)"

text \<open>
  What the specification calls stripping a single layer of quotes: one quote character
  from the front if there is one, and one from the back if there is one.
\<close>

definition strip_one_layer :: "string \<Rightarrow> string" where
  "strip_one_layer s =
     (let s1 = (case s of c # cs \<Rightarrow> if is_quote c then cs else s | [] \<Rightarrow> s)
      in if s1 \<noteq> [] \<and> is_quote (last s1) then butlast s1 else s1)"

text \<open>Stripping the whole run of quotes at the front and the whole run at the back.\<close>

definition strip_runs :: "string \<Rightarrow> string" where
  "strip_runs s = rev (dropWhile is_quote (rev (dropWhile is_quote s)))"

section \<open>Column type tokens\<close>

record ParsedType =
  pt_typeName :: string
  pt_isArray :: bool
  pt_length :: nat

definition Number :: "string \<Rightarrow> nat" where
  \<comment> \<open>\<open>Number(ds)\<close> for a string of decimal digits; exact below \<open>2^53\<close>\<close>
  "Number ds = foldl (\<lambda>n c. 10 * n + (of_char c - 48)) 0 ds"

definition tm_rx :: "(string \<times> string) rx" where
  \<comment> \<open>\<open>/([^\(]+)\((\d+)\)/\<close>\<close>
  "tm_rx s = do {
     (g1, s1) \<leftarrow> many1 (\<lambda>c. c \<noteq> CHR ''('') s;
     (_, s2) \<leftarrow> lit ''('' s1;
     (g2, s3) \<leftarrow> many1 is_digit s2;
     (_, s4) \<leftarrow> lit '')'' s3;
     [((g1, g2), s4)] }"

definition am_rx :: "(string \<times> string) rx" where
  \<comment> \<open>\<open>/([^<]+)<(\w+)>/\<close>\<close>
  "am_rx s = do {
     (g1, s1) \<leftarrow> many1 (\<lambda>c. c \<noteq> CHR ''<'') s;
     (_, s2) \<leftarrow> lit ''<'' s1;
     (g2, s3) \<leftarrow> many1 is_word s2;
     (_, s4) \<leftarrow> lit ''>'' s3;
     [((g1, g2), s4)] }"

definition parseTypeName :: "string \<Rightarrow> ParsedType" where
  "parseTypeName tn =
     (case search tm_rx tn of
        Some (g1, g2) \<Rightarrow> \<lparr>pt_typeName = toLowerCase g1, pt_isArray = False, pt_length = Number g2\<rparr>
      | None \<Rightarrow>
         (case search am_rx tn of
            Some _ \<Rightarrow> \<lparr>pt_typeName = toLowerCase tn, pt_isArray = True, pt_length = 1\<rparr>
          | None \<Rightarrow> \<lparr>pt_typeName = toLowerCase tn, pt_isArray = False, pt_length = 1\<rparr>))"


section \<open>Small string operations of the host language\<close>

fun index_of :: "string \<Rightarrow> string \<Rightarrow> nat option" where
  "index_of needle [] = (if needle = [] then Some 0 else None)"
| "index_of needle (c # cs) =
     (if prefix needle (c # cs) then Some 0 else map_option Suc (index_of needle cs))"

definition indexOf :: "string \<Rightarrow> string \<Rightarrow> int" where
  \<comment> \<open>\<open>hay.indexOf(needle)\<close>: the first position of \<open>needle\<close>, or \<open>-1\<close>\<close>
  "indexOf hay needle = (case index_of needle hay of Some i \<Rightarrow> int i | None \<Rightarrow> - 1)"

fun split :: "char \<Rightarrow> string \<Rightarrow> string list" where
  \<comment> \<open>\<open>s.split(sep)\<close> for a separator of one character\<close>
  "split sep [] = [[]]"
| "split sep (c # cs) =
     (if c = sep then [] # split sep cs
      else (case split sep cs of w # ws \<Rightarrow> (c # w) # ws | [] \<Rightarrow> [[c]]))"

definition trim :: "string \<Rightarrow> string" where
  "trim s = rev (dropWhile is_space (rev (dropWhile is_space s)))"

fun digits_of :: "nat \<Rightarrow> nat \<Rightarrow> string" where
  \<comment> \<open>the decimal digits of \<open>n\<close>, most significant first; the first argument bounds
      the number of digits\<close>
  "digits_of 0 n = []"
| "digits_of (Suc k) n =
     (if n < 10 then [char_of (48 + n)] else digits_of k (n div 10) @ [char_of (48 + n mod 10)])"

definition toString :: "nat \<Rightarrow> string" where
  \<comment> \<open>\<open>n.toString()\<close> for a non-negative integer below \<open>10^21\<close>\<close>
  "toString n = digits_of (Suc n) n"

fun update_first :: "('a \<Rightarrow> bool) \<Rightarrow> ('a \<Rightarrow> 'a) \<Rightarrow> 'a list \<Rightarrow> 'a list" where
  \<comment> \<open>\<open>const o = xs.find(P); if (o) { change o in place }\<close>\<close>
  "update_first P g [] = []"
| "update_first P g (x # xs) = (if P x then g x # xs else x # update_first P g xs)"

section \<open>Schema descriptors\<close>

record TableColumnOptions =
  opt_name :: string
  opt_type :: string
  opt_isNullable :: bool
  opt_isGenerated :: bool
  opt_isPrimary :: bool
  opt_isUnique :: bool
  opt_isArray :: bool
  opt_length :: string
  opt_default :: "string js"
  opt_generationStrategy :: "string option"

record TableIndexOptions =
  idx_name :: string
  idx_columnNames :: "string list"
  idx_isUnique :: bool
  idx_isSpatial :: bool

record TableUniqueOptions =
  uq_name :: string
  uq_columnNames :: "string list"

record TableForeignKeyOptions =
  fk_name :: string
  fk_columnNames :: "string list"
  fk_referencedTableName :: string
  fk_referencedColumnNames :: "string list"

record TableOptions =
  topt_name :: string
  topt_columns :: "TableColumnOptions list"
  topt_indices :: "TableIndexOptions list"
  topt_foreignKeys :: "TableForeignKeyOptions list"
  topt_uniques :: "TableUniqueOptions list"

record TableColumn =
  col_name :: string
  col_type :: string
  col_length :: string
  col_width :: "int option"
  col_precision :: "int js"
  col_scale :: "int option"
  col_zerofill :: bool
  col_unsigned :: bool
  col_asExpression :: "string option"
  col_generatedType :: "string option"
  col_default :: "string js"
  col_onUpdate :: "string option"
  col_isPrimary :: bool
  col_isNullable :: bool
  col_isUnique :: bool
  col_isGenerated :: bool
  col_isArray :: bool
  col_generationStrategy :: "string option"

record Table =
  tbl_name :: string
  tbl_columns :: "TableColumn list"
  tbl_indices :: "TableIndexOptions list"
  tbl_foreignKeys :: "TableForeignKeyOptions list"
  tbl_uniques :: "TableUniqueOptions list"

text \<open>
  Modelled from the spec: the classes \<open>Table\<close> and \<open>TableColumn\<close> of the schema
  builder are used by the driver but defined elsewhere. Their constructors carry the
  given options over field by field; what the options leave out stays absent.
\<close>

definition TableColumn_new :: "TableColumnOptions \<Rightarrow> TableColumn" where
  "TableColumn_new opts =
     \<lparr>col_name = opt_name opts, col_type = opt_type opts, col_length = opt_length opts,
      col_width = None, col_precision = Undefined, col_scale = None,
      col_zerofill = False, col_unsigned = False,
      col_asExpression = None, col_generatedType = None,
      col_default = opt_default opts, col_onUpdate = None,
      col_isPrimary = opt_isPrimary opts, col_isNullable = opt_isNullable opts,
      col_isUnique = opt_isUnique opts, col_isGenerated = opt_isGenerated opts,
      col_isArray = opt_isArray opts, col_generationStrategy = opt_generationStrategy opts\<rparr>"

definition Table_new :: "TableOptions \<Rightarrow> Table" where
  "Table_new opts =
     \<lparr>tbl_name = topt_name opts, tbl_columns = map TableColumn_new (topt_columns opts),
      tbl_indices = topt_indices opts, tbl_foreignKeys = topt_foreignKeys opts,
      tbl_uniques = topt_uniques opts\<rparr>"

definition findColumnByName :: "Table \<Rightarrow> string \<Rightarrow> TableColumn option" where
  "findColumnByName table n = find (\<lambda>c. col_name c = n) (tbl_columns table)"

section \<open>The DDL parser\<close>

datatype error =
    InvalidDdlColumnFormat string  \<comment> \<open>\<open>"invalid ddl column format:" + columnStmt\<close>\<close>
  | InterleavedIndexNYI            \<comment> \<open>\<open>"NYI spanner: handle interleaved index"\<close>\<close>

definition any_char :: "char \<Rightarrow> bool" where
  \<comment> \<open>the class \<open>[\s\S]\<close>\<close>
  "any_char c = True"

definition create_table_rx :: "(string \<times> string \<times> string) rx" where
  \<comment> \<open>\<open>/\s*CREATE\s+TABLE\s+(\w+)\s?[^\(]*\(([\s\S]*?),(?=\s*\))\s*\)([\s\S]*)/\<close>\<close>
  "create_table_rx s = do {
     (_, s1) \<leftarrow> many is_space s;
     (_, s2) \<leftarrow> lit ''CREATE'' s1;
     (_, s3) \<leftarrow> many1 is_space s2;
     (_, s4) \<leftarrow> lit ''TABLE'' s3;
     (_, s5) \<leftarrow> many1 is_space s4;
     (g1, s6) \<leftarrow> many1 is_word s5;
     (_, s7) \<leftarrow> opt is_space s6;
     (_, s8) \<leftarrow> many (\<lambda>c. c \<noteq> CHR ''('') s7;
     (_, s9) \<leftarrow> lit ''('' s8;
     (g2, s10) \<leftarrow> few any_char s9;
     (_, s11) \<leftarrow> lit '','' s10;
     (_, _) \<leftarrow> take 1 (do { (_, l1) \<leftarrow> many is_space s11; lit '')'' l1 });
     (_, s12) \<leftarrow> many is_space s11;
     (_, s13) \<leftarrow> lit '')'' s12;
     (g3, s14) \<leftarrow> many any_char s13;
     [((g1, g2, g3), s14)] }"

definition column_rx :: "(string \<times> string \<times> string) rx" where
  \<comment> \<open>\<open>/(\w+)\s+([\w\(\)]+)\s*([^\n]*)/\<close>\<close>
  "column_rx s = do {
     (g1, s1) \<leftarrow> many1 is_word s;
     (_, s2) \<leftarrow> many1 is_space s1;
     (g2, s3) \<leftarrow> many1 (\<lambda>c. is_word c \<or> c = CHR ''('' \<or> c = CHR '')'') s2;
     (_, s4) \<leftarrow> many is_space s3;
     (g3, s5) \<leftarrow> many (\<lambda>c. c \<noteq> CHR 0x0A) s4;
     [((g1, g2, g3), s5)] }"

definition index_stmt_rx :: "string rx" where
  \<comment> \<open>\<open>/(\w+[\w\s]+\([^)]+\)[^,]*)/g\<close>\<close>
  "index_stmt_rx s = do {
     (a, s1) \<leftarrow> many1 is_word s;
     (b, s2) \<leftarrow> many1 (\<lambda>c. is_word c \<or> is_space c) s1;
     (p, s3) \<leftarrow> lit ''('' s2;
     (c, s4) \<leftarrow> many1 (\<lambda>c. c \<noteq> CHR '')'') s3;
     (q, s5) \<leftarrow> lit '')'' s4;
     (d, s6) \<leftarrow> many (\<lambda>c. c \<noteq> CHR '','') s5;
     [(a @ b @ p @ c @ q @ d, s6)] }"

definition interleave_rx :: "(string \<times> string) rx" where
  \<comment> \<open>\<open>/INTERLEAVE\s+IN\s+PARENT\s+(\w+)\s*\((\w+)\)/\<close>\<close>
  "interleave_rx s = do {
     (_, s1) \<leftarrow> lit ''INTERLEAVE'' s;
     (_, s2) \<leftarrow> many1 is_space s1;
     (_, s3) \<leftarrow> lit ''IN'' s2;
     (_, s4) \<leftarrow> many1 is_space s3;
     (_, s5) \<leftarrow> lit ''PARENT'' s4;
     (_, s6) \<leftarrow> many1 is_space s5;
     (g1, s7) \<leftarrow> many1 is_word s6;
     (_, s8) \<leftarrow> many is_space s7;
     (_, s9) \<leftarrow> lit ''('' s8;
     (g2, s10) \<leftarrow> many1 is_word s9;
     (_, s11) \<leftarrow> lit '')'' s10;
     [((g1, g2), s11)] }"

definition primary_rx :: "string rx" where
  \<comment> \<open>\<open>/PRIMARY\s+KEY\s*\(([^)]+)\)/\<close>\<close>
  "primary_rx s = do {
     (_, s1) \<leftarrow> lit ''PRIMARY'' s;
     (_, s2) \<leftarrow> many1 is_space s1;
     (_, s3) \<leftarrow> lit ''KEY'' s2;
     (_, s4) \<leftarrow> many is_space s3;
     (_, s5) \<leftarrow> lit ''('' s4;
     (g1, s6) \<leftarrow> many1 (\<lambda>c. c \<noteq> CHR '')'') s5;
     (_, s7) \<leftarrow> lit '')'' s6;
     [(g1, s7)] }"

definition index_rx :: "(string \<times> string \<times> string \<times> string \<times> string) rx" where
  \<comment> \<open>\<open>/(\w[\w\s]+?)\s+INDEX\s+(\w+)\s+ON\s+(\w+)\s*\(([^)]+)\)(.*)/\<close>\<close>
  "index_rx s = do {
     (a, s1) \<leftarrow> (case s of c # cs \<Rightarrow> if is_word c then [([c], cs)] else [] | [] \<Rightarrow> []);
     (b, s2) \<leftarrow> few1 (\<lambda>c. is_word c \<or> is_space c) s1;
     (_, s3) \<leftarrow> many1 is_space s2;
     (_, s4) \<leftarrow> lit ''INDEX'' s3;
     (_, s5) \<leftarrow> many1 is_space s4;
     (g2, s6) \<leftarrow> many1 is_word s5;
     (_, s7) \<leftarrow> many1 is_space s6;
     (_, s8) \<leftarrow> lit ''ON'' s7;
     (_, s9) \<leftarrow> many1 is_space s8;
     (g3, s10) \<leftarrow> many1 is_word s9;
     (_, s11) \<leftarrow> many is_space s10;
     (_, s12) \<leftarrow> lit ''('' s11;
     (g4, s13) \<leftarrow> many1 (\<lambda>c. c \<noteq> CHR '')'') s12;
     (_, s14) \<leftarrow> lit '')'' s13;
     (g5, s15) \<leftarrow> many is_dot_char s14;
     [((a @ b, g2, g3, g4, g5), s15)] }"

text \<open>The loop over the column fragments; the first fragment without the column shape throws.\<close>

fun parseColumns :: "string list \<Rightarrow> error + TableColumnOptions list" where
  "parseColumns [] = Inr []"
| "parseColumns (columnStmt # rest) =
     (case search column_rx columnStmt of
        None \<Rightarrow> Inl (InvalidDdlColumnFormat columnStmt)
      | Some (cm1, cm2, cm3) \<Rightarrow>
          (let type = parseTypeName cm2;
               column = \<lparr>opt_name = cm1,
                         opt_type = pt_typeName type,
                         opt_isNullable = (indexOf cm3 ''NOT NULL'' < 0),
                         opt_isGenerated = False,
                         opt_isPrimary = False,
                         opt_isUnique = False,
                         opt_isArray = pt_isArray type,
                         opt_length = toString (pt_length type),
                         opt_default = Undefined,
                         opt_generationStrategy = None\<rparr>
           in case parseColumns rest of
                Inl e \<Rightarrow> Inl e
              | Inr columns \<Rightarrow> Inr (column # columns)))"

text \<open>
  The body of the loop over the index statements of a table: the state is the columns,
  the indices and the uniques collected so far.
\<close>

type_synonym index_state = "TableColumnOptions list \<times> TableIndexOptions list \<times> TableUniqueOptions list"

definition parseIndexStmt :: "string \<Rightarrow> index_state \<Rightarrow> error + index_state" where
  "parseIndexStmt idxStmt st =
     (case st of (columns, indices, uniques) \<Rightarrow>
        if indexOf idxStmt ''INTERLEAVE'' = 0 then
          (case search interleave_rx idxStmt of
             Some im \<Rightarrow> Inl InterleavedIndexNYI
           | None \<Rightarrow> Inr st)
        else if indexOf idxStmt ''PRIMARY'' = 0 then
          (case search primary_rx idxStmt of
             Some pm1 \<Rightarrow>
               Inr (foldl (\<lambda>cols primaryColumnName.
                             update_first (\<lambda>c. opt_name c = primaryColumnName)
                               (\<lambda>c. c\<lparr>opt_isPrimary := True\<rparr>) cols)
                          columns (map trim (split CHR '','' pm1)),
                    indices, uniques)
           | None \<Rightarrow> Inr st)
        else
          (case search index_rx idxStmt of
             Some (im1, im2, im3, im4, im5) \<Rightarrow>
               (let tableIndexOptions =
                      \<lparr>idx_name = im2,
                       idx_columnNames = map trim (split CHR '','' im4),
                       idx_isUnique = (indexOf im1 ''UNIQUE'' \<ge> 0),
                       idx_isSpatial = (indexOf im1 ''NULL_FILTERED'' \<ge> 0)\<rparr>
                in if idx_isUnique tableIndexOptions then
                     Inr (foldl (\<lambda>cols uniqueColumnName.
                                   update_first (\<lambda>c. opt_name c = uniqueColumnName)
                                     (\<lambda>c. c\<lparr>opt_isUnique := True\<rparr>) cols)
                                columns (idx_columnNames tableIndexOptions),
                          indices @ [tableIndexOptions],
                          uniques @ [\<lparr>uq_name = idx_name tableIndexOptions,
                                      uq_columnNames = idx_columnNames tableIndexOptions\<rparr>])
                   else Inr (columns, indices @ [tableIndexOptions], uniques))
           | None \<Rightarrow> Inr st))"

fun parseIndexStmts :: "string list \<Rightarrow> index_state \<Rightarrow> error + index_state" where
  "parseIndexStmts [] st = Inr st"
| "parseIndexStmts (idxStmt # rest) st =
     (case parseIndexStmt idxStmt st of
        Inl e \<Rightarrow> Inl e
      | Inr st' \<Rightarrow> parseIndexStmts rest st')"

text \<open>
  One turn of the loop over the DDL statements. The map from table name to table options
  is an association list in the order in which the names were first assigned (the order
  of the keys of an object whose keys are not integer-like). The third group of the
  statement pattern takes part in every match, so the test \<open>indexStmts == null\<close> of
  the source never holds and has no branch here.
\<close>

definition parseStatement :: "string \<Rightarrow> (string \<times> TableOptions) list \<Rightarrow>
    error + (string \<times> TableOptions) list" where
  "parseStatement stmt tableOptionsMap =
     (case search create_table_rx stmt of
        None \<Rightarrow> Inr tableOptionsMap
      | Some (tableName, columnStmts, indexStmts) \<Rightarrow>
          (case parseColumns (split CHR '','' columnStmts) of
             Inl e \<Rightarrow> Inl e
           | Inr columns0 \<Rightarrow>
               (case parseIndexStmts (match_all index_stmt_rx indexStmts) (columns0, [], []) of
                  Inl e \<Rightarrow> Inl e
                | Inr (columns, indices, uniques) \<Rightarrow>
                    Inr (AList.update tableName
                           \<lparr>topt_name = tableName, topt_columns = columns, topt_indices = indices,
                            topt_foreignKeys = [], topt_uniques = uniques\<rparr>
                           tableOptionsMap))))"

fun parseStatements :: "string list \<Rightarrow> (string \<times> TableOptions) list \<Rightarrow>
    error + (string \<times> TableOptions) list" where
  "parseStatements [] tableOptionsMap = Inr tableOptionsMap"
| "parseStatements (stmt # rest) tableOptionsMap =
     (case parseStatement stmt tableOptionsMap of
        Inl e \<Rightarrow> Inl e
      | Inr tableOptionsMap' \<Rightarrow> parseStatements rest tableOptionsMap')"

definition parseSchema :: "string list \<Rightarrow> error + (string \<times> Table) list" where
  "parseSchema ddlStatements =
     (case parseStatements ddlStatements [] of
        Inl e \<Rightarrow> Inl e
      | Inr tableOptionsMap \<Rightarrow> Inr (map (\<lambda>(tableName, opts). (tableName, Table_new opts)) tableOptionsMap))"

section \<open>The extended schema merger\<close>

text \<open>
  Modelled from the spec: the row shape of the extended schema store is declared outside
  the source at hand. An entry holds a generator (only tested for presence), a default
  expression and a generation strategy.
\<close>

record SpannerExtendColumnSchema =
  ext_generator :: bool
  ext_default :: "string js"
  ext_generatorStorategy :: "string option"

type_synonym SpannerExtendSchemas = "(string \<times> (string \<times> SpannerExtendColumnSchema) list) list"

definition extendSchema_message :: "string \<Rightarrow> string" where
  "extendSchema_message columnName =
     ''extendSchema for column '' @ columnName @ '' exists but table does not have it''"

text \<open>The body of the loop over the column entries of one table; the log collects what is printed.\<close>

definition updateColumn :: "string \<times> SpannerExtendColumnSchema \<Rightarrow> Table \<times> string list \<Rightarrow> Table \<times> string list" where
  "updateColumn entry st =
     (case entry of (columnName, columnSchema) \<Rightarrow>
      case st of (table, log) \<Rightarrow>
        (case findColumnByName table columnName of
           Some column \<Rightarrow>
             (table\<lparr>tbl_columns :=
                 update_first (\<lambda>c. col_name c = columnName)
                   (\<lambda>c. c\<lparr>col_isGenerated := ext_generator columnSchema,
                           col_default := ext_default columnSchema,
                           col_generationStrategy := ext_generatorStorategy columnSchema\<rparr>)
                   (tbl_columns table)\<rparr>, log)
         | None \<Rightarrow> (table, log @ [extendSchema_message columnName])))"

fun updateTables :: "(string \<times> Table) list \<Rightarrow> SpannerExtendSchemas \<Rightarrow> string list \<Rightarrow>
    (string \<times> Table) list \<times> string list" where
  "updateTables [] extendSchemas log = ([], log)"
| "updateTables ((tableName, table) # rest) extendSchemas log =
     (let (table', log') =
            (case map_of extendSchemas tableName of
               Some extendSchema \<Rightarrow> fold updateColumn extendSchema (table, log)
             | None \<Rightarrow> (table, log));
          (rest', log'') = updateTables rest extendSchemas log'
      in ((tableName, table') # rest', log''))"

text \<open>
  The function changes the tables of the database in place, prints to the console and
  returns the extended schemas it was given. The model returns all three.
\<close>

definition updateTableWithExtendSchema :: "(string \<times> Table) list \<Rightarrow> SpannerExtendSchemas \<Rightarrow>
    (string \<times> Table) list \<times> string list \<times> SpannerExtendSchemas" where
  "updateTableWithExtendSchema tables extendSchemas =
     (let (tables', log) = updateTables tables extendSchemas [] in (tables', log, extendSchemas))"

section \<open>The schema differ\<close>

text \<open>
  The type of a desired column is one of the constructors \<open>Number\<close>, \<open>String\<close>,
  \<open>Date\<close>, \<open>Buffer\<close>, \<open>Boolean\<close>, or a type name.
\<close>

datatype ColumnType = TNumber | TString | TDate | TBuffer | TBoolean | TName string

text \<open>
  The default of a desired column: absent, a number (integers are modelled), a boolean, a
  function (given by what it returns) or a string.
\<close>

datatype DefaultValue =
    DefUndefined | DefNull | DefNumber int | DefBoolean bool | DefFunction "string js" | DefString string

record IndexMetadata =
  im_isUnique :: bool
  im_columns :: "nat list"  \<comment> \<open>the column objects of the index, by identity\<close>

record ColumnMetadata =
  cm_ident :: nat  \<comment> \<open>the identity of the column object\<close>
  cm_databaseName :: string
  cm_type :: ColumnType
  cm_length :: string
  cm_width :: "int option"
  cm_precision :: "int js"
  cm_scale :: "int option"
  cm_zerofill :: bool
  cm_unsigned :: bool
  cm_asExpression :: "string option"
  cm_generatedType :: "string option"
  cm_default :: DefaultValue
  cm_isUpdateDate :: bool
  cm_onUpdate :: "string option"
  cm_isPrimary :: bool
  cm_isNullable :: bool
  cm_generationStrategy :: "string option"
  cm_isGenerated :: bool
  cm_indices :: "IndexMetadata list"  \<comment> \<open>\<open>entityMetadata.indices\<close>\<close>

definition SpannerColumnUpdateWithCommitTimestamp :: string where
  "SpannerColumnUpdateWithCommitTimestamp = ''commit_timestamp''"

definition normalizeType :: "ColumnMetadata \<Rightarrow> string" where
  "normalizeType column =
     (if cm_type column = TNumber \<or> cm_type column = TName ''integer'' then ''int64''
      else if cm_type column = TString \<or> cm_type column = TName ''nvarchar'' then ''string''
      else if cm_type column = TDate then ''timestamp''
      else if cm_type column = TBuffer then ''bytes''
      else if cm_type column = TBoolean then ''bool''
      else if cm_type column = TName ''simple-array'' \<or> cm_type column = TName ''simple-json'' then ''string''
      else (case cm_type column of TName t \<Rightarrow> t | _ \<Rightarrow> []))"

definition number_to_string :: "int \<Rightarrow> string" where
  \<comment> \<open>\<open>"" + n\<close> for an integer\<close>
  "number_to_string n = (if n < 0 then ''-'' @ toString (nat (- n)) else toString (nat n))"

definition normalizeDefault :: "ColumnMetadata \<Rightarrow> string js" where
  "normalizeDefault columnMetadata =
     (let defaultValue = cm_default columnMetadata in
      if cm_isUpdateDate columnMetadata then Val SpannerColumnUpdateWithCommitTimestamp
      else (case defaultValue of
              DefNumber n \<Rightarrow> Val (number_to_string n)
            | DefBoolean b \<Rightarrow> Val (if b then ''true'' else ''false'')
            | DefFunction r \<Rightarrow> r
            | DefString d \<Rightarrow> Val ([CHR 0x27] @ d @ [CHR 0x27])
            | DefUndefined \<Rightarrow> Undefined
            | DefNull \<Rightarrow> Null))"

definition normalizeIsUnique :: "ColumnMetadata \<Rightarrow> bool" where
  "normalizeIsUnique column =
     list_ex (\<lambda>idx. im_isUnique idx \<and> length (im_columns idx) = 1 \<and> im_columns idx ! 0 = cm_ident column)
       (cm_indices column)"

definition column_changed :: "TableColumn \<Rightarrow> ColumnMetadata \<Rightarrow> bool" where
  \<comment> \<open>the disjunction that \<open>findChangedColumns\<close> returns for a desired column and its live column\<close>
  "column_changed tableColumn columnMetadata =
     (col_name tableColumn \<noteq> cm_databaseName columnMetadata
      \<or> col_type tableColumn \<noteq> normalizeType columnMetadata
      \<or> col_length tableColumn \<noteq> cm_length columnMetadata
      \<or> col_width tableColumn \<noteq> cm_width columnMetadata
      \<or> col_precision tableColumn \<noteq> cm_precision columnMetadata
      \<or> col_scale tableColumn \<noteq> cm_scale columnMetadata
      \<or> col_zerofill tableColumn \<noteq> cm_zerofill columnMetadata
      \<or> col_unsigned tableColumn \<noteq> cm_unsigned columnMetadata
      \<or> col_asExpression tableColumn \<noteq> cm_asExpression columnMetadata
      \<or> col_generatedType tableColumn \<noteq> cm_generatedType columnMetadata
      \<or> \<not> compareDefaultValues (normalizeDefault columnMetadata) (col_default tableColumn)
      \<or> col_onUpdate tableColumn \<noteq> cm_onUpdate columnMetadata
      \<or> col_isPrimary tableColumn \<noteq> cm_isPrimary columnMetadata
      \<or> col_isNullable tableColumn \<noteq> cm_isNullable columnMetadata
      \<or> col_isUnique tableColumn \<noteq> normalizeIsUnique columnMetadata
      \<or> (cm_generationStrategy columnMetadata \<noteq> Some ''uuid''
           \<and> col_isGenerated tableColumn \<noteq> cm_isGenerated columnMetadata))"

definition findChangedColumns :: "TableColumn list \<Rightarrow> ColumnMetadata list \<Rightarrow> ColumnMetadata list" where
  "findChangedColumns tableColumns columnMetadatas =
     filter (\<lambda>columnMetadata.
               case find (\<lambda>c. col_name c = cm_databaseName columnMetadata) tableColumns of
                 None \<Rightarrow> False
               | Some tableColumn \<Rightarrow> column_changed tableColumn columnMetadata)
            columnMetadatas"

text \<open>
  A desired column and a live column agree on every compared attribute: the normalized
  type, length, width, precision, scale, zerofill, unsigned, computed expression, generated
  kind, default up to quote normalization, onUpdate, primary flag, nullability,
  index-derived uniqueness and generated flag.
\<close>

definition same_attributes :: "TableColumn \<Rightarrow> ColumnMetadata \<Rightarrow> bool" where
  "same_attributes tableColumn columnMetadata =
     (col_type tableColumn = normalizeType columnMetadata
      \<and> col_length tableColumn = cm_length columnMetadata
      \<and> col_width tableColumn = cm_width columnMetadata
      \<and> col_precision tableColumn = cm_precision columnMetadata
      \<and> col_scale tableColumn = cm_scale columnMetadata
      \<and> col_zerofill tableColumn = cm_zerofill columnMetadata
      \<and> col_unsigned tableColumn = cm_unsigned columnMetadata
      \<and> col_asExpression tableColumn = cm_asExpression columnMetadata
      \<and> col_generatedType tableColumn = cm_generatedType columnMetadata
      \<and> compareDefaultValues (normalizeDefault columnMetadata) (col_default tableColumn)
      \<and> col_onUpdate tableColumn = cm_onUpdate columnMetadata
      \<and> col_isPrimary tableColumn = cm_isPrimary columnMetadata
      \<and> col_isNullable tableColumn = cm_isNullable columnMetadata
      \<and> col_isUnique tableColumn = normalizeIsUnique columnMetadata
      \<and> col_isGenerated tableColumn = cm_isGenerated columnMetadata)"

section \<open>The parameter translator\<close>

text \<open>
  A parameter value: an array, a function (given by the text it returns), \<open>undefined\<close>,
  or any other value.
\<close>

datatype 'a pvalue = Scalar 'a | Array "'a pvalue list" | Function string | UndefinedValue

type_synonym 'a ObjectLiteral = "(string \<times> 'a pvalue) list"

text \<open>
  One alternative \<open>(:(\.\.\.)?name\b)\<close> of the pattern. The source splices the
  parameter name unescaped into the pattern text. The model reads the name as literal
  text, which is what the pattern means for a name without pattern metacharacters
  (backslash, caret, dollar, dot, star, plus, question mark, parentheses, brackets, braces
  and the bar), so for every name made of word characters. A name with a metacharacter
  is read by the source as a pattern, or makes the construction of the pattern throw;
  such names are outside what the model covers. Every property of the translator below
  is stated for names made of word characters, and every example uses names without
  metacharacters.
\<close>

definition key_alt :: "string \<Rightarrow> string rx" where
  "key_alt parameter s = do {
     (c, s1) \<leftarrow> lit '':'' s;
     (d, s2) \<leftarrow> lit ''...'' s1 @ [([], s1)];
     (n, s3) \<leftarrow> lit parameter s2;
     (if word_boundary (last (c @ d @ n)) s3 then [(c @ d @ n, s3)] else []) }"

definition keys_rx :: "string list \<Rightarrow> string rx" where
  \<comment> \<open>the alternatives joined with \<open>|\<close>, in the order of the keys\<close>
  "keys_rx ks s = concat (map (\<lambda>parameter. key_alt parameter s) ks)"

fun join :: "string \<Rightarrow> string list \<Rightarrow> string" where
  "join sep [] = []"
| "join sep [x] = x"
| "join sep (x # y # ys) = x @ sep @ join sep (y # ys)"

definition key_name :: "string \<Rightarrow> string" where
  \<comment> \<open>\<open>key.substr(0, 4) === ":..." ? key.substr(4) : key.substr(1)\<close>\<close>
  "key_name key = (if take 4 key = '':...'' then drop 4 key else drop 1 key)"

text \<open>The callback given to \<open>sql.replace\<close>; its state is the list \<open>escapedParameters\<close>.\<close>

definition replacer :: "'a ObjectLiteral \<Rightarrow> string \<Rightarrow> 'a ObjectLiteral list \<Rightarrow> string \<times> 'a ObjectLiteral list" where
  "replacer parameters key escapedParameters =
     (let keyName = key_name key;
          val = (case map_of parameters keyName of Some v \<Rightarrow> v | None \<Rightarrow> UndefinedValue)
      in case val of
           Function r \<Rightarrow> (r, escapedParameters)
         | Array vs \<Rightarrow>
             (join '', '' (map (\<lambda>(i, v). ''@'' @ keyName @ toString i) (enumerate 0 vs)),
              escapedParameters @ map (\<lambda>(i, v). [(keyName @ toString i, v)]) (enumerate 0 vs))
         | _ \<Rightarrow> (''@'' @ keyName, escapedParameters @ [[(keyName, val)]]))"

definition escapeQueryWithParameters :: "string \<Rightarrow> 'a ObjectLiteral \<Rightarrow> 'a ObjectLiteral \<Rightarrow>
    string \<times> 'a ObjectLiteral list" where
  "escapeQueryWithParameters sql parameters nativeParameters =
     (let escapedParameters = (if length (map fst nativeParameters) > 0 then [nativeParameters] else [])
      in if length (map fst parameters) = 0 then (sql, escapedParameters)
         else replace_all (\<lambda>at_start. keys_rx (map fst parameters)) (replacer parameters) sql escapedParameters)"

section \<open>Notions used to state the properties\<close>

text \<open>
  A statement with the \<open>CREATE TABLE\<close> shape has a malformed column clause when one of
  the comma-separated fragments of its column list lacks the column shape.
\<close>

definition malformed_column_fragment :: "string \<Rightarrow> bool" where
  "malformed_column_fragment stmt =
     (case search create_table_rx stmt of
        Some (tableName, columnStmts, indexStmts) \<Rightarrow>
          list_ex (\<lambda>columnStmt. search column_rx columnStmt = None) (split CHR '','' columnStmts)
      | None \<Rightarrow> False)"

text \<open>
  A statement with the \<open>CREATE TABLE\<close> shape has an interleave index statement when one
  of the index statements found in its trailer starts with \<open>INTERLEAVE\<close> and has the
  shape \<open>INTERLEAVE IN PARENT table(column)\<close>.
\<close>

definition interleave_index_stmt :: "string \<Rightarrow> bool" where
  "interleave_index_stmt stmt =
     (case search create_table_rx stmt of
        Some (tableName, columnStmts, indexStmts) \<Rightarrow>
          list_ex (\<lambda>idxStmt. indexOf idxStmt ''INTERLEAVE'' = 0 \<and> search interleave_rx idxStmt \<noteq> None)
            (match_all index_stmt_rx indexStmts)
      | None \<Rightarrow> False)"

text \<open>
  The trailer of a statement with the \<open>CREATE TABLE\<close> shape contains the construct
  \<open>INTERLEAVE IN PARENT table(column)\<close> somewhere.
\<close>

definition trailer_contains_interleave :: "string \<Rightarrow> bool" where
  "trailer_contains_interleave stmt =
     (case search create_table_rx stmt of
        Some (tableName, columnStmts, indexStmts) \<Rightarrow> search interleave_rx indexStmts \<noteq> None
      | None \<Rightarrow> False)"

text \<open>What the merger writes onto a column.\<close>

definition overlay :: "SpannerExtendColumnSchema \<Rightarrow> TableColumn \<Rightarrow> TableColumn" where
  "overlay columnSchema c = c\<lparr>col_isGenerated := ext_generator columnSchema,
                             col_default := ext_default columnSchema,
                             col_generationStrategy := ext_generatorStorategy columnSchema\<rparr>"

text \<open>
  A parameter name made of word characters, and a parameter value that is neither an array
  nor a function.
\<close>

definition word_name :: "string \<Rightarrow> bool" where
  "word_name k = (k \<noteq> [] \<and> list_all is_word k)"

fun plain_value :: "'a pvalue \<Rightarrow> bool" where
  "plain_value (Array vs) = False"
| "plain_value (Function r) = False"
| "plain_value v = True"

text \<open>The tokens of the declared names in a text, in order of occurrence.\<close>

definition tokens :: "'a ObjectLiteral \<Rightarrow> string \<Rightarrow> string list" where
  "tokens parameters sql = match_all (keys_rx (map fst parameters)) sql"

text \<open>
  For names made of word characters the alternatives of the parameter pattern can match at
  a position in one way only: a colon, three dots or none, and the run of word characters
  that follows, when that run is one of the names. \<open>token_at\<close> is that match.
\<close>

definition token_split :: "string \<Rightarrow> (string \<times> string \<times> string) option" where
  "token_split s =
     (case s of
        c # r \<Rightarrow>
          if c = CHR '':'' then
            (if prefix ''...'' r
             then Some (''...'', takeWhile is_word (drop 3 r), dropWhile is_word (drop 3 r))
             else Some ([], takeWhile is_word r, dropWhile is_word r))
          else None
      | [] \<Rightarrow> None)"

definition token_at :: "string list \<Rightarrow> string \<Rightarrow> (string \<times> string) option" where
  "token_at ks s =
     (case token_split s of
        Some (d, w, r) \<Rightarrow> if w \<in> set ks then Some ('':'' @ d @ w, r) else None
      | None \<Rightarrow> None)"

text \<open>
  Two texts agree up to a first position where both have a character that is neither a
  word character nor a dot, or they are equal.
\<close>

definition same_up_to_mark :: "string \<Rightarrow> string \<Rightarrow> bool" where
  "same_up_to_mark s out =
     (out = s \<or> (\<exists>u x y r r'. s = u @ x # r \<and> out = u @ y # r' \<and>
        \<not> is_word x \<and> x \<noteq> CHR ''.'' \<and> \<not> is_word y \<and> y \<noteq> CHR ''.'' \<and> y \<noteq> CHR '':''))"

section \<open>Example values\<close>

definition example_live_column :: TableColumn where
  "example_live_column = TableColumn_new
     \<lparr>opt_name = ''name'', opt_type = ''string'', opt_isNullable = True, opt_isGenerated = False,
      opt_isPrimary = False, opt_isUnique = False, opt_isArray = False, opt_length = ''255'',
      opt_default = Val ''x'', opt_generationStrategy = None\<rparr>"

definition example_desired_column :: ColumnMetadata where
  "example_desired_column =
     \<lparr>cm_ident = 0, cm_databaseName = ''name'', cm_type = TString, cm_length = ''255'',
      cm_width = None, cm_precision = Undefined, cm_scale = None, cm_zerofill = False,
      cm_unsigned = False, cm_asExpression = None, cm_generatedType = None,
      cm_default = DefString ''x'', cm_isUpdateDate = False, cm_onUpdate = None,
      cm_isPrimary = False, cm_isNullable = True, cm_generationStrategy = None,
      cm_isGenerated = False, cm_indices = []\<rparr>"

definition example_new_column :: ColumnMetadata where
  "example_new_column = example_desired_column\<lparr>cm_ident := 1, cm_databaseName := ''age'', cm_type := TNumber\<rparr>"

definition example_table :: Table where
  "example_table =
     \<lparr>tbl_name = ''t'', tbl_columns = [example_live_column], tbl_indices = [],
      tbl_foreignKeys = [], tbl_uniques = []\<rparr>"

definition example_other_table :: Table where
  "example_other_table =
     \<lparr>tbl_name = ''u'', tbl_columns = [example_live_column], tbl_indices = [],
      tbl_foreignKeys = [], tbl_uniques = []\<rparr>"

definition example_extendSchemas :: SpannerExtendSchemas where
  "example_extendSchemas =
     [(''t'', [(''name'', \<lparr>ext_generator = True, ext_default = Val ''uuid()'', ext_generatorStorategy = Some ''uuid''\<rparr>),
              (''gone'', \<lparr>ext_generator = False, ext_default = Undefined, ext_generatorStorategy = None\<rparr>)])]"

section \<open>Facts about the pattern combinators\<close>

lemma many_first: "\<exists>rest. many P s = (takeWhile P s, dropWhile P s) # rest"
  by (induction s) auto



lemma many1_first:
  "many1 P s = (if s \<noteq> [] \<and> P (hd s) then (takeWhile P s, dropWhile P s) # tl (many1 P s) else [])"
proof (cases s)
  case Nil
  then show ?thesis by (simp add: many1_def)
next
  case (Cons c cs)
  obtain rest where r: "many P (c # cs) = (takeWhile P (c # cs), dropWhile P (c # cs)) # rest"
    using many_first by blast
  show ?thesis
  proof (cases "P c")
    case True
    then show ?thesis using r Cons unfolding many1_def by (simp del: many.simps)
  next
    case False
    then show ?thesis using Cons by (simp add: many1_def)
  qed
qed

lemma bind_if_end:
  "List.bind xs (\<lambda>(q, s1). if s1 = [] then [(q, s1)] else []) = filter (\<lambda>(q, s1). s1 = []) xs"
  by (induction xs) auto

lemma many_to_end:
  "filter (\<lambda>(q, s1). s1 = []) (many P s) = (if \<forall>x\<in>set s. P x then [(s, [])] else [])"
proof (induction s)
  case Nil
  then show ?case by simp
next
  case (Cons c cs)
  have "filter (\<lambda>(q, s1). s1 = []) (map (\<lambda>(w, r). (c # w, r)) (many P cs))
      = map (\<lambda>(w, r). (c # w, r)) (filter (\<lambda>(q, s1). s1 = []) (many P cs))"
    by (simp add: filter_map comp_def case_prod_unfold)
  then show ?case using Cons by simp
qed

section \<open>Default-value comparison: what is stripped\<close>

lemma quotes_rx_False:
  "quotes_rx False s = (if s \<noteq> [] \<and> (\<forall>x\<in>set s. is_quote x) then [(s, [])] else [])"
proof -
  have "quotes_rx False s =
      filter (\<lambda>(w, r). w \<noteq> []) (filter (\<lambda>(q, s1). s1 = []) (many is_quote s))"
    unfolding quotes_rx_def many1_def bind_if_end by (simp add: conj_commute case_prod_unfold)
  then show ?thesis by (simp add: many_to_end)
qed

lemma replace_quotes_False:
  "replace_from False quotes_rx (\<lambda>m st. ([], st)) s () = (rev (dropWhile is_quote (rev s)), ())"
proof (induction s)
  case Nil
  then show ?case by (simp add: quotes_rx_False)
next
  case (Cons c cs)
  show ?case
  proof (cases "\<forall>x\<in>set (c # cs). is_quote x")
    case True
    then have "dropWhile is_quote (rev (c # cs)) = []" by simp
    then show ?thesis using True by (simp add: quotes_rx_False)
  next
    case False
    then have "dropWhile is_quote (rev cs @ [c]) = dropWhile is_quote (rev cs) @ [c]"
      by (cases "\<forall>x\<in>set cs. is_quote x") (auto simp: dropWhile_append)
    then show ?thesis using False Cons by (simp add: quotes_rx_False)
  qed
qed

lemma strip_quotes_eq: "strip_quotes s = strip_runs s"
proof (cases s)
  case Nil
  then show ?thesis
    by (simp add: strip_quotes_def strip_runs_def replace_all_def quotes_rx_def many1_def)
next
  case (Cons c cs)
  show ?thesis
  proof (cases "is_quote c")
    case True
    have m1: "many1 is_quote (c # cs) =
        (takeWhile is_quote (c # cs), dropWhile is_quote (c # cs)) # tl (many1 is_quote (c # cs))"
      using many1_first[of is_quote "c # cs"] True by simp
    have len: "drop (length (takeWhile is_quote cs)) cs = dropWhile is_quote cs"
      by (metis append_eq_conv_conj takeWhile_dropWhile_id)
    have "quotes_rx True (c # cs) =
        (takeWhile is_quote (c # cs), dropWhile is_quote (c # cs)) # tl (quotes_rx True (c # cs))"
      unfolding quotes_rx_def using m1 by (metis (no_types, lifting) append_Cons list.sel(3))
    then obtain rest where
      "quotes_rx True (c # cs) = (c # takeWhile is_quote cs, dropWhile is_quote cs) # rest"
      using True by auto
    then show ?thesis using True Cons len
      by (simp add: strip_quotes_def strip_runs_def replace_all_def replace_quotes_False)
  next
    case False
    have "many1 is_quote (c # cs) = []"
      using False many1_first[of is_quote "c # cs"] by simp
    then have "quotes_rx True (c # cs) = quotes_rx False (c # cs)"
      by (simp add: quotes_rx_def)
    then have "replace_from True quotes_rx (\<lambda>m st. ([], st)) (c # cs) () =
        replace_from False quotes_rx (\<lambda>m st. ([], st)) (c # cs) ()"
      by simp
    then show ?thesis using False Cons
      by (simp add: strip_quotes_def strip_runs_def replace_all_def replace_quotes_False
          del: replace_from.simps)
  qed
qed

lemma strip_runs_front: "is_quote c \<Longrightarrow> strip_runs (c # cs) = strip_runs cs"
  by (simp add: strip_runs_def)

lemma strip_runs_back: "is_quote y \<Longrightarrow> strip_runs (ys @ [y]) = strip_runs ys"
  unfolding strip_runs_def by (induction ys) auto

lemma strip_runs_one_layer: "strip_runs (strip_one_layer s) = strip_runs s"
proof -
  define s1 where "s1 = (case s of c # cs \<Rightarrow> if is_quote c then cs else s | [] \<Rightarrow> s)"
  have a: "strip_runs s1 = strip_runs s"
    unfolding s1_def by (cases s) (auto simp: strip_runs_front)
  have b: "strip_runs (if s1 \<noteq> [] \<and> is_quote (last s1) then butlast s1 else s1) = strip_runs s1"
    by (cases s1 rule: rev_cases) (auto simp: strip_runs_back)
  show ?thesis unfolding strip_one_layer_def Let_def s1_def[symmetric] using a b by simp
qed

text \<open>
  C6 (as amended). \<open>compareDefaultValues\<close> strips the whole run of quote characters at the
  front and the whole run at the back of both string arguments, not one layer, and then
  compares: two strings compare equal exactly when they are identical after stripping these
  runs. Consequently every pair that is identical after stripping one layer of surrounding
  quotes compares equal, whatever the original quoting.
\<close>

theorem compareDefaultValues_strips_quote_runs:
  "compareDefaultValues (Val a) (Val b) = (strip_runs a = strip_runs b) \<and>
   (strip_one_layer a = strip_one_layer b \<longrightarrow> compareDefaultValues (Val a) (Val b))"
proof -
  have "strip_one_layer a = strip_one_layer b \<Longrightarrow> strip_runs a = strip_runs b"
    by (metis strip_runs_one_layer)
  then show ?thesis by (auto simp: strip_quotes_eq)
qed

theorem compareDefaultValues_strips_quote_runs_witness:
  "strip_one_layer [CHR 0x27, CHR ''x'', CHR 0x27] = strip_one_layer ''x'' \<and>
   compareDefaultValues (Val [CHR 0x27, CHR ''x'', CHR 0x27]) (Val ''x'')"
  using compareDefaultValues_strips_quote_runs [of "[CHR 0x27, CHR ''x'', CHR 0x27]" "''x''"]
  by (simp add: strip_one_layer_def is_quote_def)

text \<open>
  C6 as stated fails: two quotes around \<open>x\<close> on one side and one quote around \<open>x\<close> on the
  other differ after stripping one layer, and still compare equal.
\<close>

theorem compareDefaultValues_one_layer_counterexample:
  "strip_one_layer [CHR 0x27, CHR 0x27, CHR ''x'', CHR 0x27, CHR 0x27] \<noteq>
     strip_one_layer [CHR 0x27, CHR ''x'', CHR 0x27] \<and>
   compareDefaultValues (Val [CHR 0x27, CHR 0x27, CHR ''x'', CHR 0x27, CHR 0x27])
     (Val [CHR 0x27, CHR ''x'', CHR 0x27])"
  by (simp add: strip_one_layer_def is_quote_def strip_quotes_eq strip_runs_def)

section \<open>The schema differ: nothing changed, nothing reported\<close>

text \<open>
  C5. For every sequence of live columns and every sequence of desired columns whose
  entries agree with the live columns of the same database name on every compared
  attribute, \<open>findChangedColumns\<close> returns the empty sequence.
\<close>

theorem findChangedColumns_unchanged:
  "(\<forall>columnMetadata\<in>set columnMetadatas. \<forall>tableColumn\<in>set tableColumns.
      col_name tableColumn = cm_databaseName columnMetadata \<longrightarrow> same_attributes tableColumn columnMetadata)
   \<Longrightarrow> findChangedColumns tableColumns columnMetadatas = []"
proof -
  assume h: "\<forall>columnMetadata\<in>set columnMetadatas. \<forall>tableColumn\<in>set tableColumns.
      col_name tableColumn = cm_databaseName columnMetadata \<longrightarrow> same_attributes tableColumn columnMetadata"
  have "\<not> column_changed tc cm"
    if "cm \<in> set columnMetadatas" and "find (\<lambda>c. col_name c = cm_databaseName cm) tableColumns = Some tc" for cm tc
  proof -
    from that(2) have "tc \<in> set tableColumns" "col_name tc = cm_databaseName cm"
      by (auto simp: find_Some_iff)
    with h that(1) have "same_attributes tc cm" by blast
    then show ?thesis using \<open>col_name tc = cm_databaseName cm\<close>
      by (simp add: same_attributes_def column_changed_def)
  qed
  then show ?thesis
    unfolding findChangedColumns_def by (auto simp: filter_empty_conv split: option.splits)
qed

theorem findChangedColumns_unchanged_witness:
  "same_attributes example_live_column example_desired_column \<and>
   findChangedColumns [example_live_column] [example_desired_column] = []"
proof -
  have q: "strip_runs [CHR 0x27, CHR ''x'', CHR 0x27] = strip_runs ''x''"
    by (simp add: strip_runs_def is_quote_def)
  have h: "same_attributes example_live_column example_desired_column"
    by (simp add: same_attributes_def example_live_column_def example_desired_column_def
        TableColumn_new_def normalizeType_def normalizeDefault_def normalizeIsUnique_def
        strip_quotes_eq q)
  show ?thesis
    using h findChangedColumns_unchanged [of "[example_desired_column]" "[example_live_column]"]
    by simp
qed

text \<open>
  C7. A desired column that has no live column with the same database name is not in the
  result of \<open>findChangedColumns\<close>, and the result is always a subsequence of the desired
  columns in their original order.
\<close>

theorem findChangedColumns_excludes_missing:
  "((\<forall>tableColumn\<in>set tableColumns. col_name tableColumn \<noteq> cm_databaseName columnMetadata) \<longrightarrow>
      columnMetadata \<notin> set (findChangedColumns tableColumns columnMetadatas)) \<and>
   subseq (findChangedColumns tableColumns columnMetadatas) columnMetadatas"
proof -
  have "find (\<lambda>c. col_name c = cm_databaseName columnMetadata) tableColumns = None"
    if "\<forall>tableColumn\<in>set tableColumns. col_name tableColumn \<noteq> cm_databaseName columnMetadata"
    using that by (simp add: find_None_iff)
  then show ?thesis unfolding findChangedColumns_def by auto
qed

theorem findChangedColumns_excludes_missing_witness:
  "example_new_column \<notin> set (findChangedColumns [example_live_column]
      [example_desired_column, example_new_column]) \<and>
   subseq (findChangedColumns [example_live_column] [example_desired_column, example_new_column])
     [example_desired_column, example_new_column]"
  using findChangedColumns_excludes_missing [of "[example_live_column]" example_new_column
      "[example_desired_column, example_new_column]"]
  by (simp add: example_live_column_def example_new_column_def example_desired_column_def
      TableColumn_new_def)

section \<open>Column type tokens: the length\<close>
















section \<open>The extended schema merger: what is overlaid\<close>

lemma update_first_names: "(\<And>c. col_name (g c) = col_name c) \<Longrightarrow> map col_name (update_first P g cols) = map col_name cols"
  by (induction cols) auto

lemma find_update_first_name:
  "(\<And>c. col_name (g c) = col_name c) \<Longrightarrow>
   find (\<lambda>c. col_name c = n) (update_first (\<lambda>c. col_name c = n) g cols) = map_option g (find (\<lambda>c. col_name c = n) cols)"
  by (induction cols) auto

lemma find_update_first_other:
  "(\<And>c. col_name (g c) = col_name c) \<Longrightarrow> n \<noteq> n' \<Longrightarrow>
   find (\<lambda>c. col_name c = n) (update_first (\<lambda>c. col_name c = n') g cols) = find (\<lambda>c. col_name c = n) cols"
  by (induction cols) auto

lemma updateColumn_names:
  "map col_name (tbl_columns (fst (updateColumn e (t, log)))) = map col_name (tbl_columns t)"
  by (cases e) (auto simp: updateColumn_def update_first_names split: option.splits)

lemma updateColumn_log: "set log \<subseteq> set (snd (updateColumn e (t, log)))"
  by (cases e) (auto simp: updateColumn_def split: option.splits)

lemma updateColumn_other:
  "fst e \<noteq> n \<Longrightarrow> findColumnByName (fst (updateColumn e (t, log))) n = findColumnByName t n"
  by (cases e) (auto simp: updateColumn_def findColumnByName_def find_update_first_other split: option.splits)

lemma updateColumn_same:
  "findColumnByName (fst (updateColumn (n, cs) (t, log))) n = map_option (overlay cs) (findColumnByName t n)"
  unfolding overlay_def[abs_def]
  by (auto simp: updateColumn_def findColumnByName_def find_update_first_name split: option.splits)

lemma updateColumn_missing:
  "findColumnByName t n = None \<Longrightarrow> extendSchema_message n \<in> set (snd (updateColumn (n, cs) (t, log)))"
  by (auto simp: updateColumn_def)

lemma fold_updateColumn_names:
  "map col_name (tbl_columns (fst (fold updateColumn es (t, log)))) = map col_name (tbl_columns t)"
proof (induction es arbitrary: t log)
  case Nil
  then show ?case by simp
next
  case (Cons e es)
  obtain t1 l1 where u: "updateColumn e (t, log) = (t1, l1)" by (cases "updateColumn e (t, log)")
  have "map col_name (tbl_columns t1) = map col_name (tbl_columns t)"
    using updateColumn_names[of e t log] u by simp
  then show ?case using Cons[of t1 l1] u by simp
qed

lemma fold_updateColumn_log: "set log \<subseteq> set (snd (fold updateColumn es (t, log)))"
proof (induction es arbitrary: t log)
  case Nil
  then show ?case by simp
next
  case (Cons e es)
  obtain t1 l1 where u: "updateColumn e (t, log) = (t1, l1)" by (cases "updateColumn e (t, log)")
  have "set log \<subseteq> set l1" using updateColumn_log[of log e t] u by simp
  then show ?case using Cons[of l1 t1] u by auto
qed

lemma fold_updateColumn_other:
  "n \<notin> fst ` set es \<Longrightarrow> findColumnByName (fst (fold updateColumn es (t, log))) n = findColumnByName t n"
proof (induction es arbitrary: t log)
  case Nil
  then show ?case by simp
next
  case (Cons e es)
  obtain t1 l1 where u: "updateColumn e (t, log) = (t1, l1)" by (cases "updateColumn e (t, log)")
  have "findColumnByName t1 n = findColumnByName t n"
    using updateColumn_other[of e n t log] u Cons.prems by auto
  then show ?case using Cons.IH[of t1 l1] Cons.prems u by simp
qed

lemma fold_updateColumn_entry:
  assumes "distinct (map fst es)" "(n, cs) \<in> set es"
  shows "findColumnByName (fst (fold updateColumn es (t, log))) n = map_option (overlay cs) (findColumnByName t n)
       \<and> (findColumnByName t n = None \<longrightarrow> extendSchema_message n \<in> set (snd (fold updateColumn es (t, log))))"
  using assms
proof (induction es arbitrary: t log)
  case Nil
  then show ?case by simp
next
  case (Cons e es)
  obtain t1 l1 where u: "updateColumn e (t, log) = (t1, l1)" by (cases "updateColumn e (t, log)")
  show ?case
  proof (cases "e = (n, cs)")
    case True
    then have notin: "n \<notin> fst ` set es" using Cons.prems(1) by auto
    have a: "findColumnByName t1 n = map_option (overlay cs) (findColumnByName t n)"
      using updateColumn_same[of n cs t log] u True by simp
    have b: "findColumnByName t n = None \<Longrightarrow> extendSchema_message n \<in> set l1"
      using updateColumn_missing[of t n cs log] u True by simp
    have c: "set l1 \<subseteq> set (snd (fold updateColumn es (t1, l1)))" by (rule fold_updateColumn_log)
    show ?thesis using a b c fold_updateColumn_other[OF notin, of t1 l1] u by auto
  next
    case False
    then have in_es: "(n, cs) \<in> set es" using Cons.prems(2) by auto
    then have "fst e \<noteq> n" using Cons.prems(1) by (auto simp: image_iff)
    then have "findColumnByName t1 n = findColumnByName t n"
      using updateColumn_other[of e n t log] u by simp
    moreover have "distinct (map fst es)" using Cons.prems(1) by simp
    ultimately show ?thesis using Cons.IH[of t1 l1] in_es u by simp
  qed
qed

lemma updateTables_log: "set log \<subseteq> set (snd (updateTables tables ext log))"
proof (induction tables arbitrary: log)
  case Nil
  then show ?case by simp
next
  case (Cons p tables)
  obtain tn t where p: "p = (tn, t)" by (cases p)
  show ?case
  proof (cases "map_of ext tn")
    case None
    then show ?thesis using Cons[of log] p by (auto simp: case_prod_unfold Let_def)
  next
    case (Some es)
    have "set log \<subseteq> set (snd (fold updateColumn es (t, log)))" by (rule fold_updateColumn_log)
    then show ?thesis using Cons[of "snd (fold updateColumn es (t, log))"] p Some
      by (auto simp: case_prod_unfold Let_def)
  qed
qed

lemma updateTables_keys: "map fst (fst (updateTables tables ext log)) = map fst tables"
  by (induction tables arbitrary: log) (auto simp: case_prod_unfold Let_def)

lemma updateTables_untouched:
  "(tn, t) \<in> set tables \<Longrightarrow> distinct (map fst tables) \<Longrightarrow> map_of ext tn = None \<Longrightarrow>
   map_of (fst (updateTables tables ext log)) tn = Some t"
proof (induction tables arbitrary: log)
  case Nil
  then show ?case by simp
next
  case (Cons p tables)
  obtain tn' t' where p: "p = (tn', t')" by (cases p)
  show ?case
  proof (cases "tn' = tn")
    case True
    then have "t' = t" using Cons.prems p by (auto simp: image_iff)
    then show ?thesis using True p Cons.prems by (simp add: case_prod_unfold Let_def)
  next
    case False
    then show ?thesis using p Cons by (auto simp: case_prod_unfold Let_def)
  qed
qed

lemma updateTables_table:
  "(tn, t) \<in> set tables \<Longrightarrow> distinct (map fst tables) \<Longrightarrow> map_of ext tn = Some es \<Longrightarrow>
   \<exists>log1. map_of (fst (updateTables tables ext log)) tn = Some (fst (fold updateColumn es (t, log1)))
        \<and> set (snd (fold updateColumn es (t, log1))) \<subseteq> set (snd (updateTables tables ext log))"
proof (induction tables arbitrary: log)
  case Nil
  then show ?case by simp
next
  case (Cons p tables)
  obtain tn' t' where p: "p = (tn', t')" by (cases p)
  show ?case
  proof (cases "tn' = tn")
    case True
    then have tt: "t' = t" using Cons.prems p by (auto simp: image_iff)
    have "set (snd (fold updateColumn es (t, log))) \<subseteq>
          set (snd (updateTables tables ext (snd (fold updateColumn es (t, log)))))"
      by (rule updateTables_log)
    then show ?thesis using True tt p Cons.prems(3)
      by (intro exI[of _ log]) (simp add: case_prod_unfold Let_def)
  next
    case False
    then have "(tn, t) \<in> set tables" "distinct (map fst tables)" using Cons.prems p by auto
    then show ?thesis using Cons.IH[OF _ _ Cons.prems(3)] False p
      by (simp add: case_prod_unfold Let_def)
  qed
qed

lemma updateTables_extendSchemas_cong:
  "(\<And>k. k \<in> fst ` set tables \<Longrightarrow> map_of extendSchemas k = map_of extendSchemas' k) \<Longrightarrow>
   updateTables tables extendSchemas log = updateTables tables extendSchemas' log"
proof (induction tables arbitrary: log)
  case Nil
  then show ?case by simp
next
  case (Cons p tables)
  obtain tn t where p: "p = (tn, t)" by (cases p)
  have h: "map_of extendSchemas tn = map_of extendSchemas' tn" using Cons.prems p by simp
  have ih: "updateTables tables extendSchemas log' = updateTables tables extendSchemas' log'" for log'
    using Cons.IH Cons.prems by simp
  show ?case unfolding p by (simp add: h ih)
qed

lemma updateTables_absent:
  "absentName \<notin> fst ` set tables \<Longrightarrow>
   updateTables tables (AList.delete absentName extendSchemas) log = updateTables tables extendSchemas log"
  by (rule updateTables_extendSchemas_cong) (auto simp: delete_conv')

lemma updateTableWithExtendSchema_present:
  assumes "distinct (map fst tables)" and "(tableName, table) \<in> set tables"
    and "map_of extendSchemas tableName = Some extendSchema"
    and "distinct (map fst extendSchema)" and "(columnName, columnSchema) \<in> set extendSchema"
  shows "\<exists>tables' log table'.
     updateTableWithExtendSchema tables extendSchemas = (tables', log, extendSchemas) \<and>
     map fst tables' = map fst tables \<and>
     map_of tables' tableName = Some table' \<and>
     map col_name (tbl_columns table') = map col_name (tbl_columns table) \<and>
     (case findColumnByName table columnName of
        Some column \<Rightarrow>
          findColumnByName table' columnName =
            Some (column\<lparr>col_isGenerated := ext_generator columnSchema,
                         col_default := ext_default columnSchema,
                         col_generationStrategy := ext_generatorStorategy columnSchema\<rparr>)
      | None \<Rightarrow>
          findColumnByName table' columnName = None \<and> extendSchema_message columnName \<in> set log)"
proof -
  obtain tables' log where r: "updateTables tables extendSchemas [] = (tables', log)"
    by (cases "updateTables tables extendSchemas []")
  obtain log1 where t: "map_of tables' tableName = Some (fst (fold updateColumn extendSchema (table, log1)))"
      and l: "set (snd (fold updateColumn extendSchema (table, log1))) \<subseteq> set log"
    using updateTables_table[OF assms(2) assms(1) assms(3), of "[]"] r by auto
  define table' where "table' = fst (fold updateColumn extendSchema (table, log1))"
  have k: "map fst tables' = map fst tables" using updateTables_keys[of tables extendSchemas "[]"] r by simp
  have n: "map col_name (tbl_columns table') = map col_name (tbl_columns table)"
    unfolding table'_def by (rule fold_updateColumn_names)
  have e: "findColumnByName table' columnName = map_option (overlay columnSchema) (findColumnByName table columnName)"
      "findColumnByName table columnName = None \<longrightarrow> extendSchema_message columnName \<in> set log"
    using fold_updateColumn_entry[OF assms(4) assms(5), of table log1] l unfolding table'_def by auto
  have "updateTableWithExtendSchema tables extendSchemas = (tables', log, extendSchemas)"
    by (simp add: updateTableWithExtendSchema_def r)
  then show ?thesis using k n e t unfolding table'_def[symmetric]
    by (intro exI[of _ tables'] exI[of _ log] exI[of _ table']) (auto simp: overlay_def split: option.splits)
qed

text \<open>
  C8 (as amended). For every table of the database that is present in the extended-schema
  map and every column entry of that table: when the parsed table has a column of that
  name, \<open>updateTableWithExtendSchema\<close> overlays \<open>isGenerated\<close> (true iff a generator
  is present), \<open>default\<close> and \<open>generationStrategy\<close> onto it; when it has none, the
  entry is logged and skipped. The merge never fails: it returns the extended schemas it
  was given, keeps the tables and the names of their columns, and merges the other entries
  all the same. A table of the extended-schema map that the database does not hold is not
  visited: the tables and the log are what they are without its entry.
\<close>

theorem updateTableWithExtendSchema_overlays:
  "(distinct (map fst tables) \<and> (tableName, table) \<in> set tables \<and>
    map_of extendSchemas tableName = Some extendSchema \<and>
    distinct (map fst extendSchema) \<and> (columnName, columnSchema) \<in> set extendSchema \<longrightarrow>
    (\<exists>tables' log table'.
       updateTableWithExtendSchema tables extendSchemas = (tables', log, extendSchemas) \<and>
       map fst tables' = map fst tables \<and>
       map_of tables' tableName = Some table' \<and>
       map col_name (tbl_columns table') = map col_name (tbl_columns table) \<and>
       (case findColumnByName table columnName of
          Some column \<Rightarrow>
            findColumnByName table' columnName =
              Some (column\<lparr>col_isGenerated := ext_generator columnSchema,
                           col_default := ext_default columnSchema,
                           col_generationStrategy := ext_generatorStorategy columnSchema\<rparr>)
        | None \<Rightarrow>
            findColumnByName table' columnName = None \<and>
            extendSchema_message columnName \<in> set log))) \<and>
   (absentName \<notin> fst ` set tables \<longrightarrow>
      fst (updateTableWithExtendSchema tables extendSchemas) =
        fst (updateTableWithExtendSchema tables (AList.delete absentName extendSchemas)) \<and>
      fst (snd (updateTableWithExtendSchema tables extendSchemas)) =
        fst (snd (updateTableWithExtendSchema tables (AList.delete absentName extendSchemas))))"
proof (intro conjI impI)
  assume a: "distinct (map fst tables) \<and> (tableName, table) \<in> set tables \<and>
    map_of extendSchemas tableName = Some extendSchema \<and>
    distinct (map fst extendSchema) \<and> (columnName, columnSchema) \<in> set extendSchema"
  then show "\<exists>tables' log table'.
       updateTableWithExtendSchema tables extendSchemas = (tables', log, extendSchemas) \<and>
       map fst tables' = map fst tables \<and>
       map_of tables' tableName = Some table' \<and>
       map col_name (tbl_columns table') = map col_name (tbl_columns table) \<and>
       (case findColumnByName table columnName of
          Some column \<Rightarrow>
            findColumnByName table' columnName =
              Some (column\<lparr>col_isGenerated := ext_generator columnSchema,
                           col_default := ext_default columnSchema,
                           col_generationStrategy := ext_generatorStorategy columnSchema\<rparr>)
        | None \<Rightarrow>
            findColumnByName table' columnName = None \<and>
            extendSchema_message columnName \<in> set log)"
    using updateTableWithExtendSchema_present[of tables tableName table extendSchemas extendSchema
        columnName columnSchema]
    by blast
next
  assume "absentName \<notin> fst ` set tables"
  then have e: "updateTables tables (AList.delete absentName extendSchemas) [] =
      updateTables tables extendSchemas []"
    by (rule updateTables_absent)
  show "fst (updateTableWithExtendSchema tables extendSchemas) =
        fst (updateTableWithExtendSchema tables (AList.delete absentName extendSchemas))"
    by (simp add: updateTableWithExtendSchema_def e case_prod_unfold Let_def)
  show "fst (snd (updateTableWithExtendSchema tables extendSchemas)) =
        fst (snd (updateTableWithExtendSchema tables (AList.delete absentName extendSchemas)))"
    by (simp add: updateTableWithExtendSchema_def e case_prod_unfold Let_def)
qed

theorem updateTableWithExtendSchema_overlays_witness:
  "distinct (map fst [(''t'', example_table)]) \<and> (''t'', example_table) \<in> set [(''t'', example_table)] \<and>
   map_of example_extendSchemas ''t'' = Some (snd (hd example_extendSchemas)) \<and>
   distinct (map fst (snd (hd example_extendSchemas))) \<and>
   findColumnByName example_table ''gone'' = None \<and>
   (\<exists>tables' log table'.
      updateTableWithExtendSchema [(''t'', example_table)] example_extendSchemas =
        (tables', log, example_extendSchemas) \<and>
      map_of tables' ''t'' = Some table' \<and>
      findColumnByName table' ''gone'' = None \<and> extendSchema_message ''gone'' \<in> set log) \<and>
   ''t'' \<notin> fst ` set [(''u'', example_other_table)] \<and>
   fst (updateTableWithExtendSchema [(''u'', example_other_table)] example_extendSchemas) =
     fst (updateTableWithExtendSchema [(''u'', example_other_table)] []) \<and>
   fst (snd (updateTableWithExtendSchema [(''u'', example_other_table)] example_extendSchemas)) =
     fst (snd (updateTableWithExtendSchema [(''u'', example_other_table)] []))"
proof -
  have h1: "distinct (map fst [(''t'', example_table)])" by simp
  have h2: "(''t'', example_table) \<in> set [(''t'', example_table)]" by simp
  have h3: "map_of example_extendSchemas ''t'' = Some (snd (hd example_extendSchemas))"
    by (simp add: example_extendSchemas_def)
  have h4: "distinct (map fst (snd (hd example_extendSchemas)))"
    by (simp add: example_extendSchemas_def)
  have h5: "(''gone'', \<lparr>ext_generator = False, ext_default = Undefined, ext_generatorStorategy = None\<rparr>)
      \<in> set (snd (hd example_extendSchemas))"
    by (simp add: example_extendSchemas_def)
  have h6: "findColumnByName example_table ''gone'' = None"
    by (simp add: findColumnByName_def example_table_def example_live_column_def TableColumn_new_def)
  have h7: "''t'' \<notin> fst ` set [(''u'', example_other_table)]" by simp
  have d: "AList.delete ''t'' example_extendSchemas = []"
    by (simp add: example_extendSchemas_def AList.delete_eq)
  note p = updateTableWithExtendSchema_overlays
    [where tables = "[(''t'', example_table)]" and tableName = "''t''" and table = example_table
       and extendSchemas = example_extendSchemas and extendSchema = "snd (hd example_extendSchemas)"
       and columnName = "''gone''"
       and columnSchema = "\<lparr>ext_generator = False, ext_default = Undefined, ext_generatorStorategy = None\<rparr>",
     THEN conjunct1, rule_format, OF conjI [OF h1 conjI [OF h2 conjI [OF h3 conjI [OF h4 h5]]]]]
  note q = updateTableWithExtendSchema_overlays
    [where tables = "[(''u'', example_other_table)]" and absentName = "''t''"
       and extendSchemas = example_extendSchemas,
     THEN conjunct2, rule_format, OF h7]
  have a: "\<exists>tables' log table'.
      updateTableWithExtendSchema [(''t'', example_table)] example_extendSchemas =
        (tables', log, example_extendSchemas) \<and>
      map_of tables' ''t'' = Some table' \<and>
      findColumnByName table' ''gone'' = None \<and> extendSchema_message ''gone'' \<in> set log"
    using p h6 by auto
  show ?thesis using h1 h2 h3 h4 h6 h7 a q unfolding d by blast
qed

text \<open>
  C8 as stated fails: the table \<open>t\<close> is present in the extended-schema map with two
  column entries, the database holds only the table \<open>u\<close>, and the merge neither overlays
  nor logs anything.
\<close>

theorem updateTableWithExtendSchema_absent_table_counterexample:
  "map_of example_extendSchemas ''t'' =
     Some [(''name'', \<lparr>ext_generator = True, ext_default = Val ''uuid()'',
                        ext_generatorStorategy = Some ''uuid''\<rparr>),
           (''gone'', \<lparr>ext_generator = False, ext_default = Undefined,
                        ext_generatorStorategy = None\<rparr>)] \<and>
   updateTableWithExtendSchema [(''u'', example_other_table)] example_extendSchemas =
     ([(''u'', example_other_table)], [], example_extendSchemas)"
  by (simp add: example_extendSchemas_def updateTableWithExtendSchema_def)

section \<open>The DDL parser: what is fatal and what is skipped\<close>

lemma parseColumns_fatal:
  "isl (parseColumns frags) \<longleftrightarrow> list_ex (\<lambda>columnStmt. search column_rx columnStmt = None) frags"
  by (induction frags) (auto simp: Let_def split: option.splits sum.splits)

lemma parseIndexStmt_fatal:
  "isl (parseIndexStmt idxStmt st) \<longleftrightarrow>
     indexOf idxStmt ''INTERLEAVE'' = 0 \<and> search interleave_rx idxStmt \<noteq> None"
  by (cases st) (auto simp: parseIndexStmt_def Let_def split: option.splits prod.splits)

lemma parseIndexStmts_fatal:
  "isl (parseIndexStmts idxStmts st) \<longleftrightarrow>
     list_ex (\<lambda>idxStmt. indexOf idxStmt ''INTERLEAVE'' = 0 \<and> search interleave_rx idxStmt \<noteq> None) idxStmts"
proof (induction idxStmts arbitrary: st)
  case Nil
  then show ?case by simp
next
  case (Cons c cs)
  show ?case
  proof (cases "parseIndexStmt c st")
    case (Inl e)
    then have "isl (parseIndexStmt c st)" by simp
    then show ?thesis using Inl parseIndexStmt_fatal[of c st] by simp
  next
    case (Inr st')
    then have "\<not> isl (parseIndexStmt c st)" by simp
    then show ?thesis using Inr parseIndexStmt_fatal[of c st] Cons[of st'] by auto
  qed
qed

lemma parseStatement_fatal:
  "isl (parseStatement stmt m) \<longleftrightarrow> malformed_column_fragment stmt \<or> interleave_index_stmt stmt"
proof (cases "search create_table_rx stmt")
  case None
  then show ?thesis
    by (simp add: parseStatement_def malformed_column_fragment_def interleave_index_stmt_def)
next
  case (Some g)
  obtain tn cols tr where g: "g = (tn, cols, tr)" by (cases g)
  show ?thesis
  proof (cases "parseColumns (split CHR '','' cols)")
    case (Inl e)
    then have "isl (parseColumns (split CHR '','' cols))" by simp
    then show ?thesis using Some g Inl parseColumns_fatal[of "split CHR '','' cols"]
      by (simp add: parseStatement_def malformed_column_fragment_def)
  next
    case (Inr columns0)
    then have nc: "\<not> list_ex (\<lambda>columnStmt. search column_rx columnStmt = None) (split CHR '','' cols)"
      using parseColumns_fatal[of "split CHR '','' cols"] by simp
    have "isl (parseStatement stmt m) = isl (parseIndexStmts (match_all index_stmt_rx tr) (columns0, [], []))"
      using Some g Inr by (simp add: parseStatement_def split: sum.splits prod.splits)
    then show ?thesis using Some g nc parseIndexStmts_fatal[of "match_all index_stmt_rx tr" "(columns0, [], [])"]
      by (simp add: malformed_column_fragment_def interleave_index_stmt_def)
  qed
qed

lemma parseStatements_fatal:
  "isl (parseStatements stmts m) \<longleftrightarrow>
     list_ex (\<lambda>stmt. malformed_column_fragment stmt \<or> interleave_index_stmt stmt) stmts"
proof (induction stmts arbitrary: m)
  case Nil
  then show ?case by simp
next
  case (Cons s ss)
  show ?case
  proof (cases "parseStatement s m")
    case (Inl e)
    then have "isl (parseStatement s m)" by simp
    then show ?thesis using Inl parseStatement_fatal[of s m] by simp
  next
    case (Inr m')
    then have "\<not> isl (parseStatement s m)" by simp
    then show ?thesis using Inr parseStatement_fatal[of s m] Cons[of m'] by auto
  qed
qed

lemma parseStatement_skip: "search create_table_rx stmt = None \<Longrightarrow> parseStatement stmt m = Inr m"
  by (simp add: parseStatement_def)

lemma parseStatements_skip:
  "search create_table_rx stmt = None \<Longrightarrow>
   parseStatements (pre @ stmt # post) m = parseStatements (pre @ post) m"
  by (induction pre arbitrary: m) (auto simp: parseStatement_skip split: sum.splits)

text \<open>
  C2 (as amended). During DDL parsing a statement that does not match the
  \<open>CREATE TABLE\<close> shape is skipped and never raises an error. Parsing raises a fatal
  error exactly when some statement with the \<open>CREATE TABLE\<close> shape has a column fragment
  without the shape \<open>name type-token rest\<close>, or has, among the index statements found in
  its trailer, one that starts with \<open>INTERLEAVE\<close> and has the shape
  \<open>INTERLEAVE IN PARENT table(column)\<close>. These are the only fatal conditions of
  \<open>parseSchema\<close>.
\<close>

theorem parseSchema_fatal_conditions:
  "(isl (parseSchema ddlStatements) \<longleftrightarrow>
      (\<exists>stmt\<in>set ddlStatements. malformed_column_fragment stmt \<or> interleave_index_stmt stmt)) \<and>
   (search create_table_rx stmt = None \<longrightarrow>
      parseSchema (pre @ stmt # post) = parseSchema (pre @ post))"
proof -
  have "isl (parseSchema ddlStatements) = isl (parseStatements ddlStatements [])"
    by (simp add: parseSchema_def split: sum.splits)
  then show ?thesis
    by (simp add: parseStatements_fatal list_ex_iff parseSchema_def parseStatements_skip)
qed

theorem parseSchema_fatal_conditions_witness:
  "search create_table_rx ''CREATE INDEX ix ON c(nm)'' = None \<and>
   parseSchema [''CREATE INDEX ix ON c(nm)'',
                ''CREATE TABLE c (id INT64,) PRIMARY KEY(id), INTERLEAVE IN PARENT p(id)''] =
   parseSchema [''CREATE TABLE c (id INT64,) PRIMARY KEY(id), INTERLEAVE IN PARENT p(id)''] \<and>
   isl (parseSchema [''CREATE TABLE c (id INT64,) PRIMARY KEY(id), INTERLEAVE IN PARENT p(id)''])"
proof -
  have h1: "search create_table_rx ''CREATE INDEX ix ON c(nm)'' = None"
    by code_simp
  have h2: "interleave_index_stmt
      ''CREATE TABLE c (id INT64,) PRIMARY KEY(id), INTERLEAVE IN PARENT p(id)''"
    by code_simp
  show ?thesis
    using h1 h2 parseSchema_fatal_conditions
      [of "[''CREATE TABLE c (id INT64,) PRIMARY KEY(id), INTERLEAVE IN PARENT p(id)'']"
          "''CREATE INDEX ix ON c(nm)''" "[]"
          "[''CREATE TABLE c (id INT64,) PRIMARY KEY(id), INTERLEAVE IN PARENT p(id)'']"]
    by simp
qed

text \<open>
  C2 as stated fails: the trailer below contains \<open>INTERLEAVE IN PARENT p(id)\<close>, but inside
  an index statement that starts with \<open>PRIMARY\<close>, and parsing raises no error.
\<close>

theorem parseSchema_interleave_counterexample:
  "trailer_contains_interleave
     ''CREATE TABLE c (id INT64,) PRIMARY KEY(id) INTERLEAVE IN PARENT p(id)'' \<and>
   \<not> isl (parseSchema [''CREATE TABLE c (id INT64,) PRIMARY KEY(id) INTERLEAVE IN PARENT p(id)''])"
  by code_simp

section \<open>The DDL parser: a table with a primary key\<close>

text \<open>
  C1. For the DDL statement
  \<open>CREATE TABLE t (id INT64 NOT NULL, name STRING(255),) PRIMARY KEY(id)\<close>,
  \<open>parseSchema\<close> produces a table keyed \<open>t\<close> whose column \<open>id\<close> has type
  \<open>int64\<close>, is not nullable and is primary, and whose column \<open>name\<close> has type
  \<open>string\<close>, length \<open>255\<close>, is nullable and is not primary.
\<close>

theorem parseSchema_scenario:
  "parseSchema [''CREATE TABLE t (id INT64 NOT NULL, name STRING(255),) PRIMARY KEY(id)''] =
   Inr [(''t'',
     \<lparr>tbl_name = ''t'',
      tbl_columns =
        [\<lparr>col_name = ''id'', col_type = ''int64'', col_length = ''1'',
          col_width = None, col_precision = Undefined, col_scale = None,
          col_zerofill = False, col_unsigned = False,
          col_asExpression = None, col_generatedType = None,
          col_default = Undefined, col_onUpdate = None,
          col_isPrimary = True, col_isNullable = False,
          col_isUnique = False, col_isGenerated = False,
          col_isArray = False, col_generationStrategy = None\<rparr>,
         \<lparr>col_name = ''name'', col_type = ''string'', col_length = ''255'',
          col_width = None, col_precision = Undefined, col_scale = None,
          col_zerofill = False, col_unsigned = False,
          col_asExpression = None, col_generatedType = None,
          col_default = Undefined, col_onUpdate = None,
          col_isPrimary = False, col_isNullable = True,
          col_isUnique = False, col_isGenerated = False,
          col_isArray = False, col_generationStrategy = None\<rparr>],
      tbl_indices = [], tbl_foreignKeys = [], tbl_uniques = []\<rparr>)]"
  by code_simp

section \<open>The parameter translator: where the pattern matches\<close>

lemma word_prefix_boundary:
  assumes "word_name k"
  shows "(prefix k r \<and> word_boundary (last k) (drop (length k) r)) \<longleftrightarrow> takeWhile is_word r = k"
proof
  assume a: "prefix k r \<and> word_boundary (last k) (drop (length k) r)"
  then obtain t where t: "r = k @ t" by (auto simp: prefix_def)
  have w: "\<forall>x\<in>set k. is_word x" "k \<noteq> []" using assms by (auto simp: word_name_def list_all_iff)
  then have "is_word (last k)" by simp
  then have "t = [] \<or> \<not> is_word (hd t)" using a t by (cases t) (auto simp: word_boundary_def)
  then show "takeWhile is_word r = k" using t w by (cases t) (auto simp: takeWhile_append2)
next
  assume a: "takeWhile is_word r = k"
  have w: "k \<noteq> []" using assms by (auto simp: word_name_def)
  have r: "r = k @ dropWhile is_word r" using a by (metis takeWhile_dropWhile_id)
  then have p: "prefix k r" by (metis prefixI)
  have d: "drop (length k) r = dropWhile is_word r" using r by (metis append_eq_conv_conj)
  have lk: "is_word (last k)" using a w by (metis last_in_set set_takeWhileD)
  have "word_boundary (last k) (dropWhile is_word r)"
  proof (cases "dropWhile is_word r")
    case Nil
    then show ?thesis using lk by (simp add: word_boundary_def del: dropWhile_eq_Nil_conv)
  next
    case (Cons c x)
    then have "\<not> is_word c" using hd_dropWhile[of is_word r] by simp
    then show ?thesis using lk Cons by (simp add: word_boundary_def)
  qed
  then show "prefix k r \<and> word_boundary (last k) (drop (length k) r)" using p d by simp
qed

lemma word_not_dots: "word_name k \<Longrightarrow> prefix ''...'' r \<Longrightarrow> \<not> prefix k r"
  by (cases k; cases r) (auto simp: word_name_def is_word_def)

lemma key_alt_closed:
  assumes "word_name k"
  shows "key_alt k s =
     (case token_split s of
        Some (d, w, r) \<Rightarrow> if w = k then [('':'' @ d @ k, r)] else []
      | None \<Rightarrow> [])"
proof (cases s)
  case Nil
  then show ?thesis by (simp add: key_alt_def lit_def token_split_def)
next
  case (Cons c r)
  have k: "k \<noteq> []" using assms by (simp add: word_name_def)
  show ?thesis
  proof (cases "c = CHR '':''")
    case False
    then show ?thesis using Cons by (simp add: key_alt_def lit_def token_split_def)
  next
    case True
    show ?thesis
    proof (cases "prefix ''...'' r")
      case dots: True
      then obtain r3 where r3: "r = CHR ''.'' # CHR ''.'' # CHR ''.'' # r3" by (auto simp: prefix_def)
      have nk: "\<not> prefix k r" using assms dots by (rule word_not_dots)
      have d3: "drop (length k) r3 = dropWhile is_word r3" if "takeWhile is_word r3 = k"
        using that by (metis append_eq_conv_conj takeWhile_dropWhile_id)
      have lk: "last (CHR '':'' # CHR ''.'' # CHR ''.'' # CHR ''.'' # k) = last k" using k by simp
      have "key_alt k s = (if prefix k r3 \<and> word_boundary (last k) (drop (length k) r3)
                           then [('':...'' @ k, drop (length k) r3)] else [])"
        using Cons True r3 nk lk k unfolding key_alt_def lit_def by simp
      moreover have "token_split s = Some (''...'', takeWhile is_word r3, dropWhile is_word r3)"
        using Cons True r3 by (simp add: token_split_def)
      ultimately show ?thesis using word_prefix_boundary[OF assms, of r3] d3 by auto
    next
      case nodots: False
      have d0: "drop (length k) r = dropWhile is_word r" if "takeWhile is_word r = k"
        using that by (metis append_eq_conv_conj takeWhile_dropWhile_id)
      have lk: "last (CHR '':'' # k) = last k" using k by simp
      have "key_alt k s = (if prefix k r \<and> word_boundary (last k) (drop (length k) r)
                           then [('':'' @ k, drop (length k) r)] else [])"
        using Cons True nodots lk k unfolding key_alt_def lit_def by simp
      moreover have "token_split s = Some ([], takeWhile is_word r, dropWhile is_word r)"
        using Cons True nodots by (simp add: token_split_def)
      ultimately show ?thesis using word_prefix_boundary[OF assms, of r] d0 by auto
    qed
  qed
qed

lemma keys_rx_token_at:
  assumes "\<forall>k\<in>set ks. word_name k"
  shows "(token_at ks s = None \<longrightarrow> keys_rx ks s = []) \<and>
         (\<forall>m r. token_at ks s = Some (m, r) \<longrightarrow> (\<exists>rest. keys_rx ks s = (m, r) # rest))"
  using assms
proof (induction ks)
  case Nil
  then show ?case by (simp add: keys_rx_def token_at_def split: option.splits)
next
  case (Cons k ks)
  have k: "word_name k" using Cons.prems by simp
  have ih: "(token_at ks s = None \<longrightarrow> keys_rx ks s = []) \<and>
         (\<forall>m r. token_at ks s = Some (m, r) \<longrightarrow> (\<exists>rest. keys_rx ks s = (m, r) # rest))"
    using Cons by simp
  have e: "keys_rx (k # ks) s = key_alt k s @ keys_rx ks s" by (simp add: keys_rx_def)
  show ?case
  proof (cases "token_split s")
    case None
    then show ?thesis using e ih by (simp add: key_alt_closed[OF k] token_at_def)
  next
    case (Some t)
    obtain d w r where t: "t = (d, w, r)" by (cases t)
    show ?thesis using e ih Some t by (auto simp: key_alt_closed[OF k] token_at_def)
  qed
qed


lemma token_at_Nil: "token_at ks [] = None"
  by (simp add: token_at_def token_split_def)

lemma token_at_shape:
  assumes "token_at ks s = Some (m, r)"
  shows "s = m @ r \<and> (\<exists>d w. (d = [] \<or> d = ''...'') \<and> w \<in> set ks \<and> m = '':'' @ d @ w)"
proof -
  obtain c rr where s: "s = c # rr" using assms by (cases s) (auto simp: token_at_Nil)
  have c: "c = CHR '':''" using assms s by (auto simp: token_at_def token_split_def split: if_splits)
  show ?thesis
  proof (cases "prefix ''...'' rr")
    case True
    then obtain r3 where r3: "rr = CHR ''.'' # CHR ''.'' # CHR ''.'' # r3" by (auto simp: prefix_def)
    have "token_split s = Some (''...'', takeWhile is_word r3, dropWhile is_word r3)"
      using s c r3 by (simp add: token_split_def)
    then have "m = '':...'' @ takeWhile is_word r3" "r = dropWhile is_word r3" "takeWhile is_word r3 \<in> set ks"
      using assms by (auto simp: token_at_def split: if_splits)
    then show ?thesis using s c r3 by auto
  next
    case False
    have "token_split s = Some ([], takeWhile is_word rr, dropWhile is_word rr)"
      using s c False by (simp add: token_split_def)
    then have "m = '':'' @ takeWhile is_word rr" "r = dropWhile is_word rr" "takeWhile is_word rr \<in> set ks"
      using assms by (auto simp: token_at_def split: if_splits)
    then show ?thesis using s c by auto
  qed
qed

lemma token_at_length: "token_at ks s = Some (m, r) \<Longrightarrow> length r < length s"
  using token_at_shape by fastforce

lemma key_name_token:
  assumes "word_name w" "d = [] \<or> d = ''...''"
  shows "key_name ('':'' @ d @ w) = w"
proof -
  obtain a w' where w: "w = a # w'" "is_word a" using assms(1) by (cases w) (auto simp: word_name_def)
  have "a \<noteq> CHR ''.''" using w(2) by (auto simp: is_word_def)
  then show ?thesis using assms(2) w by (auto simp: key_name_def)
qed

lemma token_at_cut:
  assumes "p \<noteq> []" "\<not> is_word x" "x \<noteq> CHR ''.''"
  shows "token_at ks (p @ x # r) = map_option (\<lambda>(m, r'). (m, r' @ x # r)) (token_at ks p)"
proof -
  obtain c p' where p: "p = c # p'" using assms(1) by (cases p) auto
  have tw: "takeWhile is_word (q @ x # r) = takeWhile is_word q" for q
    using assms(2) by (induction q) auto
  have dw: "dropWhile is_word (q @ x # r) = dropWhile is_word q @ x # r" for q
    using assms(2) by (induction q) auto
  show ?thesis
  proof (cases "c = CHR '':''")
    case False
    then show ?thesis using p by (simp add: token_at_def token_split_def)
  next
    case True
    show ?thesis
    proof (cases "prefix ''...'' p'")
      case dots: True
      then obtain r3 where r3: "p' = CHR ''.'' # CHR ''.'' # CHR ''.'' # r3" by (auto simp: prefix_def)
      show ?thesis using p True r3 tw[of r3] dw[of r3] by (simp add: token_at_def token_split_def)
    next
      case nodots: False
      have "\<not> prefix ''...'' (p' @ x # r)"
      proof (cases p')
        case Nil
        then show ?thesis using assms(3) by simp
      next
        case c1: (Cons a1 p1)
        show ?thesis
        proof (cases p1)
          case Nil
          then show ?thesis using assms(3) c1 by simp
        next
          case c2: (Cons a2 p2)
          show ?thesis
          proof (cases p2)
            case Nil
            then show ?thesis using assms(3) c1 c2 by simp
          next
            case (Cons a3 p3)
            then show ?thesis using nodots c1 c2 by simp
          qed
        qed
      qed
      then show ?thesis using p True nodots tw[of p'] dw[of p'] by (simp add: token_at_def token_split_def)
    qed
  qed
qed

lemma token_at_token:
  assumes "word_name k" "k \<in> set ks" "d = [] \<or> d = ''...''" "post = [] \<or> \<not> is_word (hd post)"
  shows "token_at ks ('':'' @ d @ k @ post) = Some ('':'' @ d @ k, post)"
proof -
  have w: "\<forall>x\<in>set k. is_word x" "k \<noteq> []" using assms(1) by (auto simp: word_name_def list_all_iff)
  have tw: "takeWhile is_word (k @ post) = k" using w assms(4) by (cases post) (auto simp: takeWhile_append2)
  have dw: "dropWhile is_word (k @ post) = post" using w assms(4) by (cases post) (auto simp: dropWhile_append2)
  have nd: "\<not> prefix ''...'' (k @ post)" using assms(1) word_not_dots by (metis prefixI)
  show ?thesis using assms(2,3) tw dw nd by (auto simp: token_at_def token_split_def)
qed

lemma replace_from_keys_step:
  assumes "\<forall>k\<in>set ks. word_name k"
  shows "replace_from b (\<lambda>_. keys_rx ks) f s st =
     (case s of
        [] \<Rightarrow> ([], st)
      | c # cs \<Rightarrow>
          (case token_at ks s of
             None \<Rightarrow> (let (out, st1) = replace_from False (\<lambda>_. keys_rx ks) f cs st in (c # out, st1))
           | Some (m, r) \<Rightarrow>
               (let (rep, st1) = f m st;
                    (out, st2) = replace_from False (\<lambda>_. keys_rx ks) f r st1
                in (rep @ out, st2))))"
proof (cases s)
  case Nil
  have "keys_rx ks [] = []" using keys_rx_token_at[OF assms, of "[]"] by (simp add: token_at_Nil)
  then show ?thesis using Nil by simp
next
  case (Cons c cs)
  show ?thesis
  proof (cases "token_at ks s")
    case None
    then have "keys_rx ks (c # cs) = []" using keys_rx_token_at[OF assms, of s] Cons by simp
    then show ?thesis using Cons None by simp
  next
    case (Some t)
    obtain m r where t: "t = (m, r)" by (cases t)
    obtain rest where k: "keys_rx ks (c # cs) = (m, r) # rest"
      using keys_rx_token_at[OF assms, of s] Some t Cons by auto
    have sh: "c # cs = m @ r" "m \<noteq> []" using token_at_shape[of ks s m r] Some t Cons by auto
    then have "drop (length m - 1) cs = r" by (cases m) auto
    then show ?thesis using Some t k sh(2) unfolding Cons by simp
  qed
qed

lemma match_all_keys_step:
  assumes "\<forall>k\<in>set ks. word_name k"
  shows "match_all (keys_rx ks) s =
     (case s of
        [] \<Rightarrow> []
      | c # cs \<Rightarrow>
          (case token_at ks s of
             None \<Rightarrow> match_all (keys_rx ks) cs
           | Some (m, r) \<Rightarrow> m # match_all (keys_rx ks) r))"
proof (cases s)
  case Nil
  have "keys_rx ks [] = []" using keys_rx_token_at[OF assms, of "[]"] by (simp add: token_at_Nil)
  then show ?thesis using Nil by simp
next
  case (Cons c cs)
  show ?thesis
  proof (cases "token_at ks s")
    case None
    then have "keys_rx ks (c # cs) = []" using keys_rx_token_at[OF assms, of s] Cons by simp
    then show ?thesis using Cons None by simp
  next
    case (Some t)
    obtain m r where t: "t = (m, r)" by (cases t)
    obtain rest where k: "keys_rx ks (c # cs) = (m, r) # rest"
      using keys_rx_token_at[OF assms, of s] Some t Cons by auto
    have sh: "c # cs = m @ r" "m \<noteq> []" using token_at_shape[of ks s m r] Some t Cons by auto
    then have "drop (length m - 1) cs = r" by (cases m) auto
    then show ?thesis using Some t k unfolding Cons by simp
  qed
qed

section \<open>The parameter translator: the replacement as a whole\<close>

declare replace_from.simps [simp del] match_all.simps [simp del]


lemma replace_from_keys_flag:
  assumes "\<forall>k\<in>set ks. word_name k"
  shows "replace_from b (\<lambda>_. keys_rx ks) f s st = replace_from False (\<lambda>_. keys_rx ks) f s st"
  using replace_from_keys_step[OF assms, of b f s st] replace_from_keys_step[OF assms, of False f s st]
  by simp

lemma replace_from_keys_state:
  assumes v: "\<forall>k\<in>set ks. word_name k" and f: "\<And>m st. f m st = (g m, st @ h m)"
  shows "replace_from b (\<lambda>_. keys_rx ks) f s st =
     (fst (replace_from False (\<lambda>_. keys_rx ks) f s []), st @ concat (map h (match_all (keys_rx ks) s)))"
proof (induction s arbitrary: st b rule: length_induct)
  case (1 s)
  note eqL = replace_from_keys_step[OF v, of b f s st]
  note eqR = replace_from_keys_step[OF v, of False f s "[]"]
  note eqM = match_all_keys_step[OF v, of s]
  show ?case
  proof (cases s)
    case Nil
    then show ?thesis using eqL eqR eqM by simp
  next
    case (Cons c cs)
    show ?thesis
    proof (cases "token_at ks s")
      case None
      have ih: "replace_from False (\<lambda>_. keys_rx ks) f cs st' =
          (fst (replace_from False (\<lambda>_. keys_rx ks) f cs []), st' @ concat (map h (match_all (keys_rx ks) cs)))" for st'
        using 1[rule_format, of cs False st'] Cons by simp
      show ?thesis using eqL eqR eqM Cons None ih[of st] ih[of "[]"]
        by (simp add: case_prod_unfold Let_def)
    next
      case (Some t)
      obtain m r where t: "t = (m, r)" by (cases t)
      have "length r < length s" using token_at_length Some t by blast
      then have ih: "replace_from False (\<lambda>_. keys_rx ks) f r st' =
          (fst (replace_from False (\<lambda>_. keys_rx ks) f r []), st' @ concat (map h (match_all (keys_rx ks) r)))" for st'
        using 1[rule_format, of r False st'] by simp
      have fm: "f m st = (g m, st @ h m)" "f m [] = (g m, h m)" using f by simp_all
      show ?thesis using eqL eqR eqM Cons Some t ih[of "st @ h m"] ih[of "h m"] fm
        by (simp add: case_prod_unfold Let_def)
    qed
  qed
qed

lemma replace_from_keys_split:
  assumes v: "\<forall>k\<in>set ks. word_name k"
  shows "replace_from b (\<lambda>_. keys_rx ks) f (pre @ CHR '':'' # rest) st =
     (let (o1, st1) = replace_from False (\<lambda>_. keys_rx ks) f pre st;
          (o2, st2) = replace_from False (\<lambda>_. keys_rx ks) f (CHR '':'' # rest) st1
      in (o1 @ o2, st2))"
proof (induction pre arbitrary: st b rule: length_induct)
  case (1 pre)
  show ?case
  proof (cases pre)
    case Nil
    have "replace_from False (\<lambda>_. keys_rx ks) f [] st = ([], st)"
      using replace_from_keys_step[OF v, of False f "[]" st] by simp
    then show ?thesis using Nil replace_from_keys_flag[OF v, of b f "CHR '':'' # rest" st] by simp
  next
    case (Cons c cs)
    note eqL = replace_from_keys_step[OF v, of b f "pre @ CHR '':'' # rest" st]
    note eqP = replace_from_keys_step[OF v, of False f pre st]
    have nw: "\<not> is_word CHR '':''" "CHR '':'' \<noteq> CHR ''.''" by (simp_all add: is_word_def)
    have cut: "token_at ks (pre @ CHR '':'' # rest) =
        map_option (\<lambda>(m, r'). (m, r' @ CHR '':'' # rest)) (token_at ks pre)"
      using token_at_cut[OF _ nw, of pre ks rest] Cons by simp
    show ?thesis
    proof (cases "token_at ks pre")
      case None
      have ih: "replace_from False (\<lambda>_. keys_rx ks) f (cs @ CHR '':'' # rest) st =
         (let (o1, st1) = replace_from False (\<lambda>_. keys_rx ks) f cs st;
              (o2, st2) = replace_from False (\<lambda>_. keys_rx ks) f (CHR '':'' # rest) st1
          in (o1 @ o2, st2))"
        using 1[rule_format, of cs False st] Cons by simp
      show ?thesis using eqL eqP cut None Cons ih by (simp add: case_prod_unfold Let_def)
    next
      case (Some t)
      obtain m r where t: "t = (m, r)" by (cases t)
      have "length r < length pre" using token_at_length Some t by blast
      then have ih: "replace_from False (\<lambda>_. keys_rx ks) f (r @ CHR '':'' # rest) st' =
         (let (o1, st1) = replace_from False (\<lambda>_. keys_rx ks) f r st';
              (o2, st2) = replace_from False (\<lambda>_. keys_rx ks) f (CHR '':'' # rest) st1
          in (o1 @ o2, st2))" for st'
        using 1[rule_format, of r False st'] by simp
      have ta: "token_at ks (pre @ CHR '':'' # rest) = Some (m, r @ CHR '':'' # rest)"
        using cut Some t by simp
      have L: "replace_from b (\<lambda>_. keys_rx ks) f (pre @ CHR '':'' # rest) st =
          (fst (f m st) @ fst (replace_from False (\<lambda>_. keys_rx ks) f (r @ CHR '':'' # rest) (snd (f m st))),
           snd (replace_from False (\<lambda>_. keys_rx ks) f (r @ CHR '':'' # rest) (snd (f m st))))"
        unfolding eqL ta unfolding Cons by (simp add: case_prod_unfold Let_def)
      have P: "replace_from False (\<lambda>_. keys_rx ks) f pre st =
          (fst (f m st) @ fst (replace_from False (\<lambda>_. keys_rx ks) f r (snd (f m st))),
           snd (replace_from False (\<lambda>_. keys_rx ks) f r (snd (f m st))))"
        unfolding eqP Some t unfolding Cons by (simp add: case_prod_unfold Let_def)
      show ?thesis unfolding L P ih[of "snd (f m st)"] by (simp add: case_prod_unfold Let_def)
    qed
  qed
qed

lemma match_all_keys_shape:
  assumes v: "\<forall>k\<in>set ks. word_name k"
  shows "m \<in> set (match_all (keys_rx ks) s) \<Longrightarrow>
     \<exists>d w. (d = [] \<or> d = ''...'') \<and> w \<in> set ks \<and> m = '':'' @ d @ w"
proof (induction s rule: length_induct)
  case (1 s)
  note eqM = match_all_keys_step[OF v, of s]
  show ?case
  proof (cases s)
    case Nil
    then show ?thesis using eqM 1 by simp
  next
    case (Cons c cs)
    show ?thesis
    proof (cases "token_at ks s")
      case None
      then have "m \<in> set (match_all (keys_rx ks) cs)" using eqM 1(2) Cons by simp
      then show ?thesis using 1(1)[rule_format, of cs] Cons by simp
    next
      case (Some t)
      obtain m' r where t: "t = (m', r)" by (cases t)
      have l: "length r < length s" using token_at_length Some t by blast
      have "m = m' \<or> m \<in> set (match_all (keys_rx ks) r)" using eqM 1(2) Cons Some t by simp
      then show ?thesis using token_at_shape[of ks s m' r] Some t 1(1)[rule_format, of r] l by blast
    qed
  qed
qed

lemma match_all_keys_none:
  assumes v: "\<forall>k\<in>set ks. word_name k"
  shows "(\<And>t. suffix t s \<Longrightarrow> token_at ks t = None) \<Longrightarrow> match_all (keys_rx ks) s = []"
proof (induction s)
  case Nil
  then show ?case using match_all_keys_step[OF v, of "[]"] by simp
next
  case (Cons c cs)
  have "token_at ks (c # cs) = None" using Cons.prems by simp
  moreover have "match_all (keys_rx ks) cs = []" using Cons by (simp add: suffix_Cons)
  ultimately show ?case using match_all_keys_step[OF v, of "c # cs"] by simp
qed

lemma token_at_not_colon: "s = [] \<or> hd s \<noteq> CHR '':'' \<Longrightarrow> token_at ks s = None"
  by (cases s) (auto simp: token_at_def token_split_def)

lemma replace_from_keys_clean:
  assumes v: "\<forall>k\<in>set ks. word_name k"
    and g: "\<And>m st d w. w \<in> set ks \<Longrightarrow> d = [] \<or> d = ''...'' \<Longrightarrow> m = '':'' @ d @ w \<Longrightarrow>
              \<exists>t. fst (f m st) = CHR ''@'' # t \<and> CHR '':'' \<notin> set t"
  shows "(\<forall>t. suffix t (fst (replace_from b (\<lambda>_. keys_rx ks) f s st)) \<longrightarrow> token_at ks t = None) \<and>
         same_up_to_mark s (fst (replace_from b (\<lambda>_. keys_rx ks) f s st))"
proof (induction s arbitrary: st b rule: length_induct)
  case (1 s)
  note eqL = replace_from_keys_step[OF v, of b f s st]
  show ?case
  proof (cases s)
    case Nil
    then show ?thesis using eqL by (simp add: token_at_Nil same_up_to_mark_def)
  next
    case (Cons c cs)
    show ?thesis
    proof (cases "token_at ks s")
      case None
      define out' where "out' = fst (replace_from False (\<lambda>_. keys_rx ks) f cs st)"
      have ih: "\<forall>t. suffix t out' \<longrightarrow> token_at ks t = None" "same_up_to_mark cs out'"
        using 1[rule_format, of cs False st] Cons unfolding out'_def by simp_all
      have out: "fst (replace_from b (\<lambda>_. keys_rx ks) f s st) = c # out'"
        using eqL Cons None by (simp add: case_prod_unfold out'_def Let_def)
      have head: "token_at ks (c # out') = None"
      proof (cases "out' = cs")
        case True
        then show ?thesis using None Cons by simp
      next
        case False
        then obtain u x y r r' where m: "cs = u @ x # r" "out' = u @ y # r'"
            "\<not> is_word x" "x \<noteq> CHR ''.''" "\<not> is_word y" "y \<noteq> CHR ''.''"
          using ih(2) unfolding same_up_to_mark_def by blast
        have "token_at ks ((c # u) @ x # r) = map_option (\<lambda>(m, r'). (m, r' @ x # r)) (token_at ks (c # u))"
          by (rule token_at_cut) (use m in simp_all)
        then have "token_at ks (c # u) = None" using None Cons m(1) by simp
        moreover have "token_at ks ((c # u) @ y # r') = map_option (\<lambda>(m, r''). (m, r'' @ y # r')) (token_at ks (c # u))"
          by (rule token_at_cut) (use m in simp_all)
        ultimately show ?thesis using m(2) by simp
      qed
      have a: "\<forall>t. suffix t (c # out') \<longrightarrow> token_at ks t = None"
        using head ih(1) by (auto simp: suffix_Cons)
      have b: "same_up_to_mark (c # cs) (c # out')"
      proof (cases "out' = cs")
        case True
        then show ?thesis by (simp add: same_up_to_mark_def)
      next
        case False
        then obtain u x y r r' where m: "cs = u @ x # r" "out' = u @ y # r'"
            "\<not> is_word x" "x \<noteq> CHR ''.''" "\<not> is_word y" "y \<noteq> CHR ''.''" "y \<noteq> CHR '':''"
          using ih(2) unfolding same_up_to_mark_def by blast
        have e: "c # cs = (c # u) @ x # r" "c # out' = (c # u) @ y # r'" using m by simp_all
        show ?thesis
          unfolding same_up_to_mark_def
          apply (rule disjI2)
          apply (rule exI[of _ "c # u"], rule exI[of _ x], rule exI[of _ y])
          apply (rule exI[of _ r], rule exI[of _ r'])
          using e m(3-7) by blast
      qed
      show ?thesis using a b out Cons by simp
    next
      case (Some t)
      obtain m r where t: "t = (m, r)" by (cases t)
      have l: "length r < length s" using token_at_length Some t by blast
      obtain d w where sh: "s = m @ r" "d = [] \<or> d = ''...''" "w \<in> set ks" "m = '':'' @ d @ w"
        using token_at_shape[of ks s m r] Some t by blast
      obtain tt where rep: "fst (f m st) = CHR ''@'' # tt" "CHR '':'' \<notin> set tt"
        using g[OF sh(3) sh(2) sh(4), of st] by blast
      define out' where "out' = fst (replace_from False (\<lambda>_. keys_rx ks) f r (snd (f m st)))"
      have ih: "\<forall>t. suffix t out' \<longrightarrow> token_at ks t = None"
        using 1[rule_format, of r False "snd (f m st)"] l unfolding out'_def by simp
      have out: "fst (replace_from b (\<lambda>_. keys_rx ks) f s st) = (CHR ''@'' # tt) @ out'"
        using eqL Cons Some t rep by (simp add: case_prod_unfold out'_def Let_def)
      have a: "token_at ks t' = None" if "suffix t' ((CHR ''@'' # tt) @ out')" for t'
      proof -
        from that obtain z where z0: "suffix t' out' \<or> (suffix z (CHR ''@'' # tt) \<and> t' = z @ out')"
          unfolding suffix_append by blast
        show ?thesis
        proof (cases "suffix t' out'")
          case True
          then show ?thesis using ih by simp
        next
          case False
          then have z: "suffix z (CHR ''@'' # tt)" "t' = z @ out'" using z0 by simp_all
          have zn: "z \<noteq> []" using z(2) False by auto
          have "set z \<subseteq> set (CHR ''@'' # tt)" using z(1) by (rule set_mono_suffix)
          then have "hd z \<in> set (CHR ''@'' # tt)" using zn by (meson hd_in_set subsetD)
          then have "hd z \<noteq> CHR '':''" using rep(2) by auto
          then have "hd t' \<noteq> CHR '':''" using z(2) zn by simp
          then show ?thesis by (simp add: token_at_not_colon)
        qed
      qed
      have nw: "\<not> is_word CHR '':''" "CHR '':'' \<noteq> CHR ''.''" "\<not> is_word CHR ''@''" "CHR ''@'' \<noteq> CHR ''.''" "CHR ''@'' \<noteq> CHR '':''"
        by (simp_all add: is_word_def)
      have e1: "s = [] @ CHR '':'' # (d @ w @ r)" using sh by simp
      have e2: "(CHR ''@'' # tt) @ out' = [] @ CHR ''@'' # (tt @ out')" by simp
      have b: "same_up_to_mark s ((CHR ''@'' # tt) @ out')"
        unfolding same_up_to_mark_def
        apply (rule disjI2)
        apply (rule exI[of _ "[]"], rule exI[of _ "CHR '':''"], rule exI[of _ "CHR ''@''"])
        apply (rule exI[of _ "d @ w @ r"], rule exI[of _ "tt @ out'"])
        using e1 e2 nw by simp
      show ?thesis using a b out by simp
    qed
  qed
qed

lemma replacer_state:
  "replacer parameters key esc =
     (fst (replacer parameters key []), esc @ snd (replacer parameters key []))"
  by (simp add: replacer_def Let_def split: option.splits pvalue.splits)

lemma replacer_plain:
  "map_of parameters (key_name key) = Some v \<Longrightarrow> plain_value v \<Longrightarrow>
   replacer parameters key esc = (''@'' @ key_name key, esc @ [[(key_name key, v)]])"
  by (cases v) (simp_all add: replacer_def Let_def)

lemma map_enumerate:
  "map (\<lambda>(i, v). F i v) (enumerate 0 vs) = map (\<lambda>i. F i (vs ! i)) [0..<length vs]"
  by (rule nth_equalityI) (simp_all add: enumerate_eq_zip)

lemma replacer_array:
  "map_of parameters (key_name key) = Some (Array vs) \<Longrightarrow>
   replacer parameters key esc =
     (join '', '' (map (\<lambda>i. ''@'' @ key_name key @ toString i) [0..<length vs]),
      esc @ map (\<lambda>i. [(key_name key @ toString i, vs ! i)]) [0..<length vs])"
  using map_enumerate[of "\<lambda>i v. ''@'' @ key_name key @ toString i" vs]
        map_enumerate[of "\<lambda>i v. [(key_name key @ toString i, v)]" vs]
  by (simp add: replacer_def Let_def)

lemma concat_singletons: "(\<And>x. x \<in> set xs \<Longrightarrow> h x = [k x]) \<Longrightarrow> concat (map h xs) = map k xs"
  by (induction xs) auto

lemma escapeQueryWithParameters_unfold:
  "parameters \<noteq> [] \<Longrightarrow>
   escapeQueryWithParameters sql parameters nativeParameters =
     replace_from True (\<lambda>_. keys_rx (map fst parameters)) (replacer parameters) sql
       (if nativeParameters \<noteq> [] then [nativeParameters] else [])"
  by (simp add: escapeQueryWithParameters_def replace_all_def)

lemma escapeQueryWithParameters_token:
  assumes v: "\<forall>k\<in>set (map fst parameters). word_name k"
    and n: "name \<in> set (map fst parameters)"
    and d: "d = [] \<or> d = ''...''"
    and p: "post = [] \<or> \<not> is_word (hd post)"
  shows "escapeQueryWithParameters (pre @ '':'' @ d @ name @ post) parameters nativeParameters =
     (fst (escapeQueryWithParameters pre parameters nativeParameters) @
      fst (replacer parameters ('':'' @ d @ name) []) @
      fst (escapeQueryWithParameters post parameters []),
      snd (escapeQueryWithParameters pre parameters nativeParameters) @
      snd (replacer parameters ('':'' @ d @ name) []) @
      snd (escapeQueryWithParameters post parameters []))"
proof -
  define ks where "ks = map fst parameters"
  define f where "f = replacer parameters"
  define esc0 where "esc0 = (if nativeParameters \<noteq> [] then [nativeParameters] else [])"
  define tok where "tok = '':'' @ d @ name"
  have v': "\<forall>k\<in>set ks. word_name k" using v by (simp add: ks_def)
  have ne: "parameters \<noteq> []" using n by auto
  have fs: "\<And>m st. f m st = (fst (f m []), st @ snd (f m []))"
    unfolding f_def by (rule replacer_state)
  have st: "replace_from b (\<lambda>_. keys_rx ks) f s st0 =
      (fst (replace_from False (\<lambda>_. keys_rx ks) f s []),
       st0 @ concat (map (\<lambda>m. snd (f m [])) (match_all (keys_rx ks) s)))" for b s st0
    by (rule replace_from_keys_state[OF v']) (rule fs)
  have E: "escapeQueryWithParameters s parameters nat0 =
      replace_from True (\<lambda>_. keys_rx ks) f s (if nat0 \<noteq> [] then [nat0] else [])" for s nat0
    using escapeQueryWithParameters_unfold[OF ne] by (simp add: ks_def f_def)
  have wn: "word_name name" using v n by auto
  have ta: "token_at ks (tok @ post) = Some (tok, post)"
    using token_at_token[OF wn _ d p, of ks] n by (simp add: ks_def tok_def)
  have tokc: "tok @ post = CHR '':'' # (d @ name @ post)" by (simp add: tok_def)
  have step: "replace_from False (\<lambda>_. keys_rx ks) f (tok @ post) st1 =
      (fst (f tok st1) @ fst (replace_from False (\<lambda>_. keys_rx ks) f post (snd (f tok st1))),
       snd (replace_from False (\<lambda>_. keys_rx ks) f post (snd (f tok st1))))" for st1
    using replace_from_keys_step[OF v', of False f "tok @ post" st1] ta
    unfolding tokc by (simp add: case_prod_unfold Let_def)
  have split: "replace_from True (\<lambda>_. keys_rx ks) f (pre @ tok @ post) esc0 =
      (fst (replace_from False (\<lambda>_. keys_rx ks) f pre esc0) @
         fst (replace_from False (\<lambda>_. keys_rx ks) f (tok @ post) (snd (replace_from False (\<lambda>_. keys_rx ks) f pre esc0))),
       snd (replace_from False (\<lambda>_. keys_rx ks) f (tok @ post) (snd (replace_from False (\<lambda>_. keys_rx ks) f pre esc0))))"
    using replace_from_keys_split[OF v', of True f pre "d @ name @ post" esc0]
    unfolding tokc by (simp add: case_prod_unfold Let_def)
  have A: "escapeQueryWithParameters pre parameters nativeParameters =
      replace_from False (\<lambda>_. keys_rx ks) f pre esc0"
    unfolding E esc0_def by (rule replace_from_keys_flag[OF v'])
  have B: "escapeQueryWithParameters post parameters [] =
      replace_from False (\<lambda>_. keys_rx ks) f post []"
    unfolding E using replace_from_keys_flag[OF v', of True f post "[]"] by simp
  have L: "escapeQueryWithParameters (pre @ tok @ post) parameters nativeParameters =
      replace_from True (\<lambda>_. keys_rx ks) f (pre @ tok @ post) esc0"
    unfolding E esc0_def by simp
  define st1 where "st1 = snd (replace_from False (\<lambda>_. keys_rx ks) f pre esc0)"
  have ft: "f tok st1 = (fst (f tok []), st1 @ snd (f tok []))" by (rule fs)
  have post1: "replace_from False (\<lambda>_. keys_rx ks) f post (st1 @ snd (f tok [])) =
      (fst (replace_from False (\<lambda>_. keys_rx ks) f post []),
       (st1 @ snd (f tok [])) @ concat (map (\<lambda>m. snd (f m [])) (match_all (keys_rx ks) post)))"
    by (rule st)
  have post0: "replace_from False (\<lambda>_. keys_rx ks) f post [] =
      (fst (replace_from False (\<lambda>_. keys_rx ks) f post []),
       [] @ concat (map (\<lambda>m. snd (f m [])) (match_all (keys_rx ks) post)))"
    by (rule st)
  have sndpost: "snd (replace_from False (\<lambda>_. keys_rx ks) f post []) =
      concat (map (\<lambda>m. snd (f m [])) (match_all (keys_rx ks) post))"
    using post0 by (cases "replace_from False (\<lambda>_. keys_rx ks) f post []") simp
  have "escapeQueryWithParameters (pre @ tok @ post) parameters nativeParameters =
     (fst (replace_from False (\<lambda>_. keys_rx ks) f pre esc0) @ fst (f tok []) @
        fst (replace_from False (\<lambda>_. keys_rx ks) f post []),
      st1 @ snd (f tok []) @ snd (replace_from False (\<lambda>_. keys_rx ks) f post []))"
    unfolding L split st1_def[symmetric] step ft fst_conv snd_conv post1 sndpost by simp
  then show ?thesis unfolding A B st1_def tok_def f_def by simp
qed

lemma token_at_empty_keys: "token_at [] s = None"
  by (simp add: token_at_def split: option.splits)

lemma escapeQueryWithParameters_array_token:
  assumes v: "\<forall>(k, v)\<in>set parameters. word_name k"
    and m: "map_of parameters name = Some (Array vs)"
    and t: "token = '':'' @ name \<or> token = '':...'' @ name"
    and p: "post = [] \<or> \<not> is_word (hd post)"
  shows "escapeQueryWithParameters (pre @ token @ post) parameters nativeParameters =
     (fst (escapeQueryWithParameters pre parameters nativeParameters) @
      join '', '' (map (\<lambda>i. ''@'' @ name @ toString i) [0..<length vs]) @
      fst (escapeQueryWithParameters post parameters []),
      snd (escapeQueryWithParameters pre parameters nativeParameters) @
      map (\<lambda>i. [(name @ toString i, vs ! i)]) [0..<length vs] @
      snd (escapeQueryWithParameters post parameters []))"
proof -
  have v': "\<forall>k\<in>set (map fst parameters). word_name k" using v by auto
  have "(name, Array vs) \<in> set parameters" using m by (rule map_of_SomeD)
  then have n: "name \<in> set (map fst parameters)" by force
  then have wn: "word_name name" using v' by blast
  obtain d where d: "d = [] \<or> d = ''...''" "token = '':'' @ d @ name" using t by auto
  have kn: "key_name token = name" using key_name_token[OF wn d(1)] d(2) by simp
  have r: "replacer parameters token [] =
     (join '', '' (map (\<lambda>i. ''@'' @ name @ toString i) [0..<length vs]),
      map (\<lambda>i. [(name @ toString i, vs ! i)]) [0..<length vs])"
    using replacer_array[of parameters token vs "[]"] m kn by simp
  show ?thesis
    using escapeQueryWithParameters_token[OF v' n d(1) p, of pre nativeParameters] r d(2) by simp
qed

text \<open>
  C3 (as amended). For every SQL text and every named-parameter map whose names are made
  of word characters and whose values are neither arrays nor functions,
  \<open>escapeQueryWithParameters\<close> returns, after the passthrough entry if there is one,
  exactly one native parameter entry per occurrence of a parameter token in the SQL, in
  order of occurrence (a name that occurs \<open>k\<close> times gives \<open>k\<close> entries), each for
  a declared name, and a rewritten SQL in which no token of a declared name remains.
\<close>

theorem escapeQueryWithParameters_plain:
  assumes "\<forall>(k, v)\<in>set parameters. word_name k \<and> plain_value v"
  shows "tokens parameters (fst (escapeQueryWithParameters sql parameters nativeParameters)) = [] \<and>
         snd (escapeQueryWithParameters sql parameters nativeParameters) =
           (if nativeParameters \<noteq> [] then [nativeParameters] else []) @
           map (\<lambda>token. [(key_name token,
                           case map_of parameters (key_name token) of Some v \<Rightarrow> v | None \<Rightarrow> UndefinedValue)])
             (tokens parameters sql) \<and>
         (\<forall>token\<in>set (tokens parameters sql). key_name token \<in> fst ` set parameters)"
proof -
  define ks where "ks = map fst parameters"
  define f where "f = replacer parameters"
  define esc0 where "esc0 = (if nativeParameters \<noteq> [] then [nativeParameters] else [])"
  have v: "\<forall>k\<in>set ks. word_name k" using assms by (auto simp: ks_def)
  have shape: "\<exists>d w. (d = [] \<or> d = ''...'') \<and> w \<in> set ks \<and> m = '':'' @ d @ w"
    if "m \<in> set (match_all (keys_rx ks) s)" for m s
    using match_all_keys_shape[OF v that] .
  have kn: "key_name m \<in> set ks \<and> CHR '':'' \<notin> set (key_name m)"
    if "d = [] \<or> d = ''...''" "w \<in> set ks" "m = '':'' @ d @ w" for m d w
  proof -
    have w: "word_name w" using v that(2) by simp
    then have "key_name m = w" using key_name_token[OF w that(1)] that(3) by simp
    moreover have "CHR '':'' \<notin> set w" using w by (auto simp: word_name_def list_all_iff is_word_def)
    ultimately show ?thesis using that(2) by simp
  qed
  have plain: "\<exists>v. map_of parameters k = Some v \<and> plain_value v" if "k \<in> set ks" for k
  proof -
    have "k \<in> fst ` set parameters" using that by (simp add: ks_def)
    then have "map_of parameters k \<noteq> None" by (simp add: map_of_eq_None_iff)
    then obtain v where "map_of parameters k = Some v" by auto
    moreover from this have "(k, v) \<in> set parameters" by (rule map_of_SomeD)
    ultimately show ?thesis using assms by auto
  qed
  have third: "\<forall>token\<in>set (tokens parameters sql). key_name token \<in> fst ` set parameters"
  proof
    fix token assume "token \<in> set (tokens parameters sql)"
    then have "token \<in> set (match_all (keys_rx ks) sql)" by (simp add: tokens_def ks_def)
    then obtain d w where "d = [] \<or> d = ''...''" "w \<in> set ks" "token = '':'' @ d @ w"
      using shape by blast
    then have "key_name token \<in> set ks" using kn by blast
    then show "key_name token \<in> fst ` set parameters" by (simp add: ks_def)
  qed
  show ?thesis
  proof (cases "parameters = []")
    case True
    have "match_all (keys_rx []) s = []" for s
      by (rule match_all_keys_none) (simp_all add: token_at_empty_keys)
    then show ?thesis using True by (simp add: escapeQueryWithParameters_def tokens_def)
  next
    case False
    have E: "escapeQueryWithParameters sql parameters nativeParameters =
        replace_from True (\<lambda>_. keys_rx ks) f sql esc0"
      using escapeQueryWithParameters_unfold[OF False] by (simp add: ks_def f_def esc0_def)
    have fs: "\<And>m st. f m st = (fst (f m []), st @ snd (f m []))"
      unfolding f_def by (rule replacer_state)
    have st: "replace_from True (\<lambda>_. keys_rx ks) f sql esc0 =
        (fst (replace_from False (\<lambda>_. keys_rx ks) f sql []),
         esc0 @ concat (map (\<lambda>m. snd (f m [])) (match_all (keys_rx ks) sql)))"
      by (rule replace_from_keys_state[OF v]) (rule fs)
    have h: "snd (f m []) = [[(key_name m,
        case map_of parameters (key_name m) of Some v \<Rightarrow> v | None \<Rightarrow> UndefinedValue)]]"
      if mm: "m \<in> set (match_all (keys_rx ks) sql)" for m
    proof -
      obtain d w where "d = [] \<or> d = ''...''" "w \<in> set ks" "m = '':'' @ d @ w"
        using shape[OF mm] by blast
      then have "key_name m \<in> set ks" using kn by blast
      then obtain v where "map_of parameters (key_name m) = Some v" "plain_value v"
        using plain by blast
      then show ?thesis unfolding f_def by (simp add: replacer_plain)
    qed
    have second: "snd (escapeQueryWithParameters sql parameters nativeParameters) =
        esc0 @ map (\<lambda>token. [(key_name token,
            case map_of parameters (key_name token) of Some v \<Rightarrow> v | None \<Rightarrow> UndefinedValue)])
          (tokens parameters sql)"
      unfolding E st tokens_def ks_def[symmetric] using concat_singletons[OF h] by simp
    have g: "\<exists>t. fst (f m st) = CHR ''@'' # t \<and> CHR '':'' \<notin> set t"
      if "w \<in> set ks" "d = [] \<or> d = ''...''" "m = '':'' @ d @ w" for m st d w
    proof -
      have k: "key_name m \<in> set ks" "CHR '':'' \<notin> set (key_name m)" using kn[OF that(2,1,3)] by simp_all
      then obtain v where "map_of parameters (key_name m) = Some v" "plain_value v"
        using plain by blast
      then have "fst (f m st) = CHR ''@'' # key_name m" unfolding f_def by (simp add: replacer_plain)
      then show ?thesis using k(2) by blast
    qed
    have "(\<forall>t. suffix t (fst (replace_from True (\<lambda>_. keys_rx ks) f sql esc0)) \<longrightarrow> token_at ks t = None) \<and>
        same_up_to_mark sql (fst (replace_from True (\<lambda>_. keys_rx ks) f sql esc0))"
    proof (rule replace_from_keys_clean)
      show "\<forall>k\<in>set ks. word_name k" by (rule v)
    next
      fix m st d w
      assume "w \<in> set ks" "d = [] \<or> d = ''...''" "m = '':'' @ d @ w"
      then show "\<exists>t. fst (f m st) = CHR ''@'' # t \<and> CHR '':'' \<notin> set t" by (rule g)
    qed
    then have first: "tokens parameters (fst (escapeQueryWithParameters sql parameters nativeParameters)) = []"
      unfolding E tokens_def ks_def[symmetric] using match_all_keys_none[OF v] by blast
    show ?thesis using first second third by (simp add: esc0_def)
  qed
qed

theorem escapeQueryWithParameters_plain_witness:
  "word_name ''id'' \<and> plain_value (Scalar (1::int)) \<and>
   tokens [(''id'', Scalar (1::int))] ''a = :id OR b = :...id'' = ['':id'', '':...id''] \<and>
   tokens [(''id'', Scalar (1::int))]
     (fst (escapeQueryWithParameters ''a = :id OR b = :...id'' [(''id'', Scalar (1::int))] [])) = [] \<and>
   snd (escapeQueryWithParameters ''a = :id OR b = :...id'' [(''id'', Scalar (1::int))] []) =
     [[(''id'', Scalar 1)], [(''id'', Scalar 1)]]"
proof -
  define P where "P = [(''id'', Scalar (1::int))]"
  have w: "word_name ''id''" by (simp add: word_name_def is_word_def)
  have h: "\<forall>(k, v)\<in>set P. word_name k \<and> plain_value v" using w by (simp add: P_def)
  have t: "tokens P ''a = :id OR b = :...id'' = ['':id'', '':...id'']"
    unfolding P_def by code_simp
  have k: "key_name '':id'' = ''id''" "key_name '':...id'' = ''id''" by (simp_all add: key_name_def)
  note r = escapeQueryWithParameters_plain [OF h, of "''a = :id OR b = :...id''" "[]"]
  from r have a: "tokens P (fst (escapeQueryWithParameters ''a = :id OR b = :...id'' P [])) = []"
    by blast
  from r have b: "snd (escapeQueryWithParameters ''a = :id OR b = :...id'' P []) =
      [[(''id'', Scalar 1)], [(''id'', Scalar 1)]]"
    unfolding t by (simp add: k P_def)
  show ?thesis using w t a b unfolding P_def by simp
qed

text \<open>
  C3 as stated fails: the name \<open>id\<close> is the only name that occurs in the first SQL
  below, and it yields two native parameter entries, one per occurrence. And with a name
  that has a character outside the word characters, replacing \<open>:b\<close> in \<open>:x:b\<close> leaves
  \<open>:x@b\<close>, a token of the declared name \<open>x@b\<close>.
\<close>

theorem escapeQueryWithParameters_repeated_name_counterexample:
  "remdups (map key_name (tokens [(''id'', Scalar (1::int))] ''a = :id OR b = :id'')) = [''id''] \<and>
   snd (escapeQueryWithParameters ''a = :id OR b = :id'' [(''id'', Scalar (1::int))] []) =
     [[(''id'', Scalar 1)], [(''id'', Scalar 1)]] \<and>
   tokens [(''b'', Scalar (1::int)), (''x@b'', Scalar 2)]
     (fst (escapeQueryWithParameters '':x:b'' [(''b'', Scalar (1::int)), (''x@b'', Scalar 2)] [])) =
     ['':x@b'']"
  by code_simp

text \<open>
  C4 (as amended). For a named-parameter map whose names are made of word characters and
  a named parameter whose value is an array of length \<open>N\<close>: at every occurrence of its
  token \<open>:...name\<close> or \<open>:name\<close> (not followed by a word character)
  \<open>escapeQueryWithParameters\<close> appends exactly the \<open>N\<close> native parameters
  \<open>name0\<close>, ..., \<open>name(N-1)\<close> in element order, after those of the text before the
  token and before those of the text after it, and replaces that token with the
  comma-joined list \<open>@name0, ..., @name(N-1)\<close>; a name whose token occurs \<open>k\<close>
  times so yields \<open>k\<close> times \<open>N\<close> native parameters. In particular
  \<open>SELECT * FROM t WHERE id IN (:...ids)\<close> with \<open>ids = [1, 2, 3]\<close> yields
  \<open>SELECT * FROM t WHERE id IN (@ids0, @ids1, @ids2)\<close> and the parameters
  \<open>{ids0: 1}, {ids1: 2}, {ids2: 3}\<close>.
\<close>

theorem escapeQueryWithParameters_array:
  "((\<forall>(k, v)\<in>set parameters. word_name k) \<and> map_of parameters name = Some (Array vs) \<and>
    (token = '':'' @ name \<or> token = '':...'' @ name) \<and> (post = [] \<or> \<not> is_word (hd post)) \<longrightarrow>
    escapeQueryWithParameters (pre @ token @ post) parameters nativeParameters =
      (fst (escapeQueryWithParameters pre parameters nativeParameters) @
       join '', '' (map (\<lambda>i. ''@'' @ name @ toString i) [0..<length vs]) @
       fst (escapeQueryWithParameters post parameters []),
       snd (escapeQueryWithParameters pre parameters nativeParameters) @
       map (\<lambda>i. [(name @ toString i, vs ! i)]) [0..<length vs] @
       snd (escapeQueryWithParameters post parameters []))) \<and>
   escapeQueryWithParameters ''SELECT * FROM t WHERE id IN (:...ids)''
       [(''ids'', Array [Scalar (1::int), Scalar 2, Scalar 3])] [] =
     (''SELECT * FROM t WHERE id IN (@ids0, @ids1, @ids2)'',
      [[(''ids0'', Scalar 1)], [(''ids1'', Scalar 2)], [(''ids2'', Scalar 3)]])"
proof (intro conjI impI)
  show "escapeQueryWithParameters ''SELECT * FROM t WHERE id IN (:...ids)''
       [(''ids'', Array [Scalar (1::int), Scalar 2, Scalar 3])] [] =
     (''SELECT * FROM t WHERE id IN (@ids0, @ids1, @ids2)'',
      [[(''ids0'', Scalar 1)], [(''ids1'', Scalar 2)], [(''ids2'', Scalar 3)]])"
    by code_simp
next
  assume "(\<forall>(k, v)\<in>set parameters. word_name k) \<and> map_of parameters name = Some (Array vs) \<and>
    (token = '':'' @ name \<or> token = '':...'' @ name) \<and> (post = [] \<or> \<not> is_word (hd post))"
  then show "escapeQueryWithParameters (pre @ token @ post) parameters nativeParameters =
      (fst (escapeQueryWithParameters pre parameters nativeParameters) @
       join '', '' (map (\<lambda>i. ''@'' @ name @ toString i) [0..<length vs]) @
       fst (escapeQueryWithParameters post parameters []),
       snd (escapeQueryWithParameters pre parameters nativeParameters) @
       map (\<lambda>i. [(name @ toString i, vs ! i)]) [0..<length vs] @
       snd (escapeQueryWithParameters post parameters []))"
    using escapeQueryWithParameters_array_token[of parameters name vs token post pre nativeParameters]
    by simp
qed

theorem escapeQueryWithParameters_array_witness:
  "word_name ''ids'' \<and>
   escapeQueryWithParameters (''SELECT * FROM t WHERE id IN ('' @ '':...ids'' @ '')'')
       [(''ids'', Array [Scalar (1::int), Scalar 2, Scalar 3])] [] =
     (''SELECT * FROM t WHERE id IN (@ids0, @ids1, @ids2)'',
      [[(''ids0'', Scalar 1)], [(''ids1'', Scalar 2)], [(''ids2'', Scalar 3)]])"
proof -
  define P where "P = [(''ids'', Array [Scalar (1::int), Scalar 2, Scalar 3])]"
  have w: "word_name ''ids''" by (simp add: word_name_def is_word_def)
  have h: "(\<forall>(k, v)\<in>set P. word_name k) \<and> map_of P ''ids'' = Some (Array [Scalar 1, Scalar 2, Scalar 3]) \<and>
      ('':...ids'' = '':'' @ ''ids'' \<or> '':...ids'' = '':...'' @ ''ids'') \<and> ('')'' = [] \<or> \<not> is_word (hd '')''))"
    using w by (simp add: P_def is_word_def)
  have e: "escapeQueryWithParameters (''SELECT * FROM t WHERE id IN ('' @ '':...ids'' @ '')'') P [] =
      (fst (escapeQueryWithParameters ''SELECT * FROM t WHERE id IN ('' P []) @
       join '', '' (map (\<lambda>i. ''@'' @ ''ids'' @ toString i) [0..<length [Scalar (1::int), Scalar 2, Scalar 3]]) @
       fst (escapeQueryWithParameters '')'' P []),
       snd (escapeQueryWithParameters ''SELECT * FROM t WHERE id IN ('' P []) @
       map (\<lambda>i. [(''ids'' @ toString i, [Scalar (1::int), Scalar 2, Scalar 3] ! i)]) [0..<length [Scalar (1::int), Scalar 2, Scalar 3]] @
       snd (escapeQueryWithParameters '')'' P []))"
    using escapeQueryWithParameters_array [THEN conjunct1, rule_format, OF h] .
  have "(fst (escapeQueryWithParameters ''SELECT * FROM t WHERE id IN ('' P []) @
       join '', '' (map (\<lambda>i. ''@'' @ ''ids'' @ toString i) [0..<length [Scalar (1::int), Scalar 2, Scalar 3]]) @
       fst (escapeQueryWithParameters '')'' P []),
       snd (escapeQueryWithParameters ''SELECT * FROM t WHERE id IN ('' P []) @
       map (\<lambda>i. [(''ids'' @ toString i, [Scalar (1::int), Scalar 2, Scalar 3] ! i)]) [0..<length [Scalar (1::int), Scalar 2, Scalar 3]] @
       snd (escapeQueryWithParameters '')'' P [])) =
     (''SELECT * FROM t WHERE id IN (@ids0, @ids1, @ids2)'',
      [[(''ids0'', Scalar 1)], [(''ids1'', Scalar 2)], [(''ids2'', Scalar 3)]])"
    unfolding P_def by code_simp
  then show ?thesis using e w unfolding P_def by simp
qed

text \<open>
  C4 as stated fails: the array \<open>ids\<close> has length 2 and its token occurs twice, so four
  native parameters are appended. And for the name \<open>ids@\<close>, which ends outside the
  word characters, the token is followed by no word boundary: it stays in the SQL and no
  native parameter is appended.
\<close>

theorem escapeQueryWithParameters_array_counterexample:
  "escapeQueryWithParameters ''a IN (:...ids) OR b IN (:...ids)''
       [(''ids'', Array [Scalar (1::int), Scalar 2])] [] =
     (''a IN (@ids0, @ids1) OR b IN (@ids0, @ids1)'',
      [[(''ids0'', Scalar 1)], [(''ids1'', Scalar 2)], [(''ids0'', Scalar 1)], [(''ids1'', Scalar 2)]]) \<and>
   escapeQueryWithParameters ''IN (:...ids@)'' [(''ids@'', Array [Scalar (1::int), Scalar 2])] [] =
     (''IN (:...ids@)'', [])"
  by code_simp

text \<open>
  C9 (as amended). For a named-parameter map whose names are made of word characters and
  a named parameter whose value is the empty array: at every occurrence of its token
  \<open>:...name\<close> or \<open>:name\<close> (not followed by a word character)
  \<open>escapeQueryWithParameters\<close> replaces the token with the empty string and appends no
  native parameter, so the rewritten SQL is the rewritten text before the token followed
  by the rewritten text after it (\<open>IN (:...xs)\<close> becomes \<open>IN ()\<close>).
\<close>

theorem escapeQueryWithParameters_empty_array:
  "(\<forall>(k, v)\<in>set parameters. word_name k) \<and> map_of parameters name = Some (Array []) \<and>
   (token = '':'' @ name \<or> token = '':...'' @ name) \<and> (post = [] \<or> \<not> is_word (hd post)) \<longrightarrow>
   escapeQueryWithParameters (pre @ token @ post) parameters nativeParameters =
     (fst (escapeQueryWithParameters pre parameters nativeParameters) @
      fst (escapeQueryWithParameters post parameters []),
      snd (escapeQueryWithParameters pre parameters nativeParameters) @
      snd (escapeQueryWithParameters post parameters []))"
proof
  assume a: "(\<forall>(k, v)\<in>set parameters. word_name k) \<and> map_of parameters name = Some (Array []) \<and>
   (token = '':'' @ name \<or> token = '':...'' @ name) \<and> (post = [] \<or> \<not> is_word (hd post))"
  then show "escapeQueryWithParameters (pre @ token @ post) parameters nativeParameters =
     (fst (escapeQueryWithParameters pre parameters nativeParameters) @
      fst (escapeQueryWithParameters post parameters []),
      snd (escapeQueryWithParameters pre parameters nativeParameters) @
      snd (escapeQueryWithParameters post parameters []))"
    using escapeQueryWithParameters_array_token[of parameters name "[]" token post pre nativeParameters]
    by simp
qed

theorem escapeQueryWithParameters_empty_array_witness:
  "word_name ''xs'' \<and>
   escapeQueryWithParameters (''IN ('' @ '':...xs'' @ '')'') [(''xs'', Array [] :: int pvalue)] [] = (''IN ()'', [])"
proof -
  define P where "P = [(''xs'', Array [] :: int pvalue)]"
  have w: "word_name ''xs''" by (simp add: word_name_def is_word_def)
  have h: "(\<forall>(k, v)\<in>set P. word_name k) \<and> map_of P ''xs'' = Some (Array []) \<and>
      ('':...xs'' = '':'' @ ''xs'' \<or> '':...xs'' = '':...'' @ ''xs'') \<and> ('')'' = [] \<or> \<not> is_word (hd '')''))"
    using w by (simp add: P_def is_word_def)
  have e: "escapeQueryWithParameters (''IN ('' @ '':...xs'' @ '')'') P [] =
      (fst (escapeQueryWithParameters ''IN ('' P []) @ fst (escapeQueryWithParameters '')'' P []),
       snd (escapeQueryWithParameters ''IN ('' P []) @ snd (escapeQueryWithParameters '')'' P []))"
    using escapeQueryWithParameters_empty_array [rule_format, OF h] .
  have "(fst (escapeQueryWithParameters ''IN ('' P []) @ fst (escapeQueryWithParameters '')'' P []),
       snd (escapeQueryWithParameters ''IN ('' P []) @ snd (escapeQueryWithParameters '')'' P [])) =
      (''IN ()'', [])"
    unfolding P_def by code_simp
  then show ?thesis using e w unfolding P_def by simp
qed

text \<open>
  C9 as stated fails: for the name \<open>xs@\<close>, which ends outside the word characters, the
  token of the empty array is followed by no word boundary and stays in the SQL. And next
  to a declared name \<open>xs@\<close> the token \<open>:...xs\<close> of the empty array \<open>xs\<close> in
  \<open>:...xs@y\<close> is not replaced by the empty string: the text \<open>:...xs@\<close> is replaced
  for the other name, and a native parameter is appended.
\<close>

theorem escapeQueryWithParameters_empty_array_counterexample:
  "escapeQueryWithParameters ''IN (:...xs@)'' [(''xs@'', Array [] :: int pvalue)] [] =
     (''IN (:...xs@)'', []) \<and>
   escapeQueryWithParameters ''IN (:...xs@y)'' [(''xs@'', Scalar (5::int)), (''xs'', Array [])] [] =
     (''IN (@xs@y)'', [[(''xs@'', Scalar 5)]])"
  by code_simp

end
